theory Spec2Isabelle
  imports Complex_Main "HOL-Library.Sublist" "HOL-Library.Log_Nat"
begin

section \<open>JavaScript numbers\<close>

text \<open>
  The TypeScript sources compute on the type \<open>number\<close>, the IEEE 754 binary64 format.
  A \<open>number\<close> is modelled by its value: \<open>Fin r\<close> is the double of the rational value
  \<open>r\<close>, and \<open>Infinity\<close>, \<open>-Infinity\<close> and \<open>NaN\<close> are the three other constructors.
  The comparisons are exact. The results of \<open>+\<close>, \<open>-\<close>, \<open>*\<close> and \<open>/\<close> on finite
  operands are the exact results rounded to the nearest double, ties to the even
  significand (\<open>to_double\<close>), as the format prescribes; on the other operands they follow
  the tables of the language: every comparison with \<open>NaN\<close> is false,
  \<open>Infinity - Infinity\<close>, \<open>0 * Infinity\<close> and \<open>0 / 0\<close> are \<open>NaN\<close>, a non-zero finite
  number divided by zero is infinite. The sign of zero is not modelled: there is a single
  zero, the positive one.
\<close>

datatype number = Fin rat | PosInf | NegInf | NaN

subsection \<open>Rounding to binary64\<close>

text \<open>
  The nearest integer, ties to the even one.
\<close>

definition rne :: "rat \<Rightarrow> int" where
  "rne x =
     (let f = \<lfloor>x\<rfloor>; d = x - of_int f
      in if d < 1 / 2 then f else if 1 / 2 < d then f + 1 else if even f then f else f + 1)"

text \<open>
  The binary logarithm of a positive rational, rounded down: one less than the number of
  bits of its integer part when it is at least 1, and otherwise the negated number of
  bits of one less than the ceiling of its inverse.
\<close>

definition ilog2 :: "rat \<Rightarrow> int" where
  "ilog2 a = (if 1 \<le> a then bitlen \<lfloor>a\<rfloor> - 1 else - bitlen (\<lceil>1 / a\<rceil> - 1))"

text \<open>
  A double has a significand of 53 bits. The exponent of the last place of the doubles
  around the magnitude \<open>a\<close> is \<open>ilog2 a - 52\<close>, and never less than \<open>-1074\<close>, the
  exponent of the subnormal doubles.
\<close>

definition exponent :: "rat \<Rightarrow> int" where
  "exponent a = max (- 1074) (ilog2 a - 52)"

definition round_magnitude :: "rat \<Rightarrow> rat" where
  "round_magnitude a = of_int (rne (a / 2 powi exponent a)) * 2 powi exponent a"

text \<open>
  The double nearest to a rational: the rounded magnitude with the sign, and an infinity
  when the rounded magnitude reaches \<open>2^1024\<close>.
\<close>

definition to_double :: "rat \<Rightarrow> number" where
  "to_double x =
     (if x = 0 then Fin 0
      else let y = round_magnitude \<bar>x\<bar>
           in if 2 ^ 1024 \<le> y then (if 0 < x then PosInf else NegInf)
              else Fin (if 0 < x then y else - y))"

subsection \<open>The operations of the language\<close>

fun isFinite :: "number \<Rightarrow> bool" where
  "isFinite (Fin r) = True"
| "isFinite PosInf = False"
| "isFinite NegInf = False"
| "isFinite NaN = False"

fun isInteger :: "number \<Rightarrow> bool" where
  "isInteger (Fin r) = (of_int \<lfloor>r\<rfloor> = r)"
| "isInteger PosInf = False"
| "isInteger NegInf = False"
| "isInteger NaN = False"

text \<open>The operators \<open><\<close> and \<open><=\<close>; \<open>a > b\<close> is \<open>b < a\<close>.\<close>

fun num_lt :: "number \<Rightarrow> number \<Rightarrow> bool" where
  "num_lt (Fin a) (Fin b) = (a < b)"
| "num_lt (Fin a) PosInf = True"
| "num_lt NegInf (Fin b) = True"
| "num_lt NegInf PosInf = True"
| "num_lt a b = False"

fun num_le :: "number \<Rightarrow> number \<Rightarrow> bool" where
  "num_le (Fin a) (Fin b) = (a \<le> b)"
| "num_le (Fin a) PosInf = True"
| "num_le NegInf (Fin b) = True"
| "num_le NegInf PosInf = True"
| "num_le PosInf PosInf = True"
| "num_le NegInf NegInf = True"
| "num_le a b = False"

definition num_gt :: "number \<Rightarrow> number \<Rightarrow> bool" where
  "num_gt a b = num_lt b a"

fun num_neg :: "number \<Rightarrow> number" where
  "num_neg (Fin a) = Fin (- a)"
| "num_neg PosInf = NegInf"
| "num_neg NegInf = PosInf"
| "num_neg NaN = NaN"

fun num_add :: "number \<Rightarrow> number \<Rightarrow> number" where
  "num_add (Fin a) (Fin b) = to_double (a + b)"
| "num_add NaN b = NaN"
| "num_add a NaN = NaN"
| "num_add PosInf NegInf = NaN"
| "num_add NegInf PosInf = NaN"
| "num_add PosInf b = PosInf"
| "num_add a PosInf = PosInf"
| "num_add NegInf b = NegInf"
| "num_add a NegInf = NegInf"

definition num_sub :: "number \<Rightarrow> number \<Rightarrow> number" where
  "num_sub a b = num_add a (num_neg b)"

text \<open>The sign of an infinite product or quotient with a finite operand.\<close>

definition signed_inf :: "bool \<Rightarrow> number" where
  "signed_inf positive = (if positive then PosInf else NegInf)"

fun num_mul :: "number \<Rightarrow> number \<Rightarrow> number" where
  "num_mul (Fin a) (Fin b) = to_double (a * b)"
| "num_mul NaN b = NaN"
| "num_mul a NaN = NaN"
| "num_mul PosInf (Fin b) = (if b = 0 then NaN else signed_inf (0 < b))"
| "num_mul NegInf (Fin b) = (if b = 0 then NaN else signed_inf (b < 0))"
| "num_mul (Fin a) PosInf = (if a = 0 then NaN else signed_inf (0 < a))"
| "num_mul (Fin a) NegInf = (if a = 0 then NaN else signed_inf (a < 0))"
| "num_mul PosInf PosInf = PosInf"
| "num_mul NegInf NegInf = PosInf"
| "num_mul PosInf NegInf = NegInf"
| "num_mul NegInf PosInf = NegInf"

fun num_div :: "number \<Rightarrow> number \<Rightarrow> number" where
  "num_div (Fin a) (Fin b) =
     (if b \<noteq> 0 then to_double (a / b) else if a = 0 then NaN else signed_inf (0 < a))"
| "num_div NaN b = NaN"
| "num_div a NaN = NaN"
| "num_div (Fin a) PosInf = Fin 0"
| "num_div (Fin a) NegInf = Fin 0"
| "num_div PosInf (Fin b) = signed_inf (0 \<le> b)"
| "num_div NegInf (Fin b) = signed_inf (b < 0)"
| "num_div a b = NaN"

text \<open>
  \<open>Math.ceil\<close>. The ceiling of a double is a double: no rounding takes place.
\<close>

fun num_ceil :: "number \<Rightarrow> number" where
  "num_ceil (Fin r) = Fin (of_int \<lceil>r\<rceil>)"
| "num_ceil PosInf = PosInf"
| "num_ceil NegInf = NegInf"
| "num_ceil NaN = NaN"

section \<open>Data model and the imported collaborators\<close>

text \<open>
  \<open>OutputWithValue\<close> is the object type \<open>{ output: OutputInstance; value: number }\<close>.
  The output handle \<open>OutputInstance\<close> is opaque: a type variable. The selector of a
  field of an object carries a prime (\<open>output'\<close>, \<open>value'\<close>, \<open>fee'\<close>), which keeps the
  plain name for the variables of the sources.
\<close>

record 'o OutputWithValue =
  output' :: 'o
  value' :: number

text \<open>
  The modules \<open>vsize\<close>, \<open>dust\<close> and \<open>index\<close> are imported by the sources but are not part
  of them. The size estimator \<open>vsize\<close>, the dust classifier \<open>isDust\<close> and the constants
  \<open>MAX_FEE_RATE\<close> and \<open>DUST_RELAY_FEE_RATE\<close> are therefore parameters of the model,
  collected in one record; both functions are pure functions of their arguments. The
  size estimator is a total function here: the model covers the calls in which it
  returns a number. (The specification lets it fail on an output handle whose shape it
  does not know; such a call ends with the estimator's exception.)
\<close>

record 'o env =
  vsize :: "'o list \<Rightarrow> 'o list \<Rightarrow> number"
  isDust :: "'o \<Rightarrow> number \<Rightarrow> number \<Rightarrow> bool"
  MAX_FEE_RATE :: number
  DUST_RELAY_FEE_RATE :: number

text \<open>
  Every failure of the sources is \<open>throw new Error(message)\<close>. The constructors name the
  six messages and carry the values the message interpolates:
  \<open>Empty group\<close>, \<open>Input value v not supported\<close>, \<open>Fee rate r not supported\<close>,
  \<open>Target #i is dusty\<close>, \<open>Final fee rate f lower than required r\<close> and
  \<open>feeContribution < 0\<close>.
\<close>

datatype error =
    EmptyGroupError
  | InvalidValueError number
  | InvalidFeeRateError number
  | DustTargetError nat
  | InsufficientFeeError number number
  | FeeContributionError

section \<open>validation.ts\<close>

text \<open>The loop of \<open>validateOutputWithValues\<close> over the entries, in order.\<close>

fun validateValues :: "'o OutputWithValue list \<Rightarrow> error + unit" where
  "validateValues [] = Inr ()"
| "validateValues (outputAndValue # rest) =
     (let v = value' outputAndValue in
      if \<not> isInteger v \<or> num_le v (Fin 0) \<or> num_gt v (Fin 100000000000000)
      then Inl (InvalidValueError v)
      else validateValues rest)"

definition validateOutputWithValues :: "'o OutputWithValue list \<Rightarrow> error + unit" where
  "validateOutputWithValues outputAndValues =
     (if length outputAndValues = 0 then Inl EmptyGroupError
      else validateValues outputAndValues)"

definition validateFeeRate :: "'o env \<Rightarrow> number \<Rightarrow> error + unit" where
  "validateFeeRate env feeRate =
     (if \<not> isFinite feeRate \<or> num_lt feeRate (Fin 1) \<or> num_gt feeRate (MAX_FEE_RATE env)
      then Inl (InvalidFeeRateError feeRate)
      else Inr ())"

text \<open>
  A parameter with a default value: \<open>None\<close> is the omitted argument, which the
  language replaces by \<open>DUST_RELAY_FEE_RATE\<close>.
\<close>

definition dustRelayFeeRate_or_default :: "'o env \<Rightarrow> number option \<Rightarrow> number" where
  "dustRelayFeeRate_or_default env dustRelayFeeRate =
     (case dustRelayFeeRate of None \<Rightarrow> DUST_RELAY_FEE_RATE env | Some r \<Rightarrow> r)"

text \<open>
  The loop of \<open>validateDust\<close> over \<open>Object.entries(targets)\<close>: the pairs of an index
  and the target at that index, in ascending order of the index.
\<close>

fun validateDustEntries ::
  "'o env \<Rightarrow> number \<Rightarrow> (nat \<times> 'o OutputWithValue) list \<Rightarrow> error + unit" where
  "validateDustEntries env rate [] = Inr ()"
| "validateDustEntries env rate ((index, target) # rest) =
     (if isDust env (output' target) (value' target) rate
      then Inl (DustTargetError index)
      else validateDustEntries env rate rest)"

definition validateDust ::
  "'o env \<Rightarrow> 'o OutputWithValue list \<Rightarrow> number option \<Rightarrow> error + unit" where
  "validateDust env targets dustRelayFeeRate =
     validateDustEntries env (dustRelayFeeRate_or_default env dustRelayFeeRate)
       (enumerate 0 targets)"

text \<open>\<open>xs.reduce((a, x) => a + x.value, 0)\<close>.\<close>

definition sumValues :: "'o OutputWithValue list \<Rightarrow> number" where
  "sumValues xs = foldl (\<lambda>a x. num_add a (value' x)) (Fin 0) xs"

record FeeAndVsize =
  fee' :: number
  vsize' :: number

definition validatedFeeAndVsize ::
  "'o env \<Rightarrow> 'o OutputWithValue list \<Rightarrow> 'o OutputWithValue list \<Rightarrow> number
    \<Rightarrow> error + FeeAndVsize" where
  "validatedFeeAndVsize env utxos targets feeRate =
     (let fee = num_sub (sumValues utxos) (sumValues targets);
          vsizeResult = vsize env (map output' utxos) (map output' targets);
          finalFeeRate = num_div fee vsizeResult
      in if num_lt finalFeeRate feeRate
         then Inl (InsufficientFeeError finalFeeRate feeRate)
         else (case validateFeeRate env finalFeeRate of
                 Inl e \<Rightarrow> Inl e
               | Inr u \<Rightarrow> Inr \<lparr>fee' = fee, vsize' = vsizeResult\<rparr>))"

section \<open>References\<close>

text \<open>
  \<open>maxFunds\<close> compares objects and arrays by reference: \<open>utxo !== validUtxo\<close> holds of
  two different objects even when their fields agree, and the result carries either the
  caller's array or the array that \<open>filter\<close> created. Objects of type
  \<open>OutputWithValue\<close> and arrays of them therefore live in a store and are denoted by
  references; \<open>free_ref\<close> is the first reference that is not allocated. An array is the
  list of the references of its elements. Nothing in the sources writes to an object or
  to an existing array; the \<open>filter\<close> that computes \<open>validUtxos\<close> allocates its result.
  The arrays that a call creates and only passes to the size estimator (the results of
  \<open>map\<close> and of the inner \<open>filter\<close>) are given by their contents.
\<close>

type_synonym ref = nat

record 'o heap =
  objects :: "ref \<Rightarrow> 'o OutputWithValue"
  arrays :: "ref \<Rightarrow> ref list"
  free_ref :: ref

definition alloc_array :: "'o heap \<Rightarrow> ref list \<Rightarrow> ref \<times> 'o heap" where
  "alloc_array h xs =
     (free_ref h, h\<lparr>arrays := (arrays h)(free_ref h := xs), free_ref := Suc (free_ref h)\<rparr>)"

section \<open>maxFunds\<close>

text \<open>
  \<open>Math.ceil(feeRate * vsize(utxos.map(utxo => utxo.output), [remainder]))\<close>, the
  expression of \<open>allUtxosFee\<close> and of \<open>validFee\<close>.
\<close>

definition allUtxosFee :: "'o env \<Rightarrow> 'o heap \<Rightarrow> ref list \<Rightarrow> 'o \<Rightarrow> number \<Rightarrow> number" where
  "allUtxosFee env h utxos remainder feeRate =
     num_ceil (num_mul feeRate
       (vsize env (map (\<lambda>utxo. output' (objects h utxo)) utxos) [remainder]))"

definition txSizeWithoutUtxo :: "'o env \<Rightarrow> 'o heap \<Rightarrow> ref list \<Rightarrow> 'o \<Rightarrow> ref \<Rightarrow> number" where
  "txSizeWithoutUtxo env h utxos remainder validUtxo =
     vsize env
       (map (\<lambda>utxo. output' (objects h utxo)) (filter (\<lambda>utxo. utxo \<noteq> validUtxo) utxos))
       [remainder]"

definition feeContribution ::
  "'o env \<Rightarrow> 'o heap \<Rightarrow> ref list \<Rightarrow> 'o \<Rightarrow> number \<Rightarrow> ref \<Rightarrow> number" where
  "feeContribution env h utxos remainder feeRate validUtxo =
     num_sub (allUtxosFee env h utxos remainder feeRate)
       (num_ceil (num_mul feeRate (txSizeWithoutUtxo env h utxos remainder validUtxo)))"

text \<open>
  The call \<open>utxos.filter(validUtxo => ...)\<close>: the callback runs on the elements in order,
  against the whole array \<open>utxos\<close>; its \<open>throw\<close> ends the call.
\<close>

fun filterValidUtxos ::
  "'o env \<Rightarrow> 'o heap \<Rightarrow> ref list \<Rightarrow> 'o \<Rightarrow> number \<Rightarrow> ref list \<Rightarrow> error + ref list" where
  "filterValidUtxos env h utxos remainder feeRate [] = Inr []"
| "filterValidUtxos env h utxos remainder feeRate (validUtxo # rest) =
     (let contribution = feeContribution env h utxos remainder feeRate validUtxo in
      if num_lt contribution (Fin 0) then Inl FeeContributionError
      else (case filterValidUtxos env h utxos remainder feeRate rest of
              Inl e \<Rightarrow> Inl e
            | Inr kept \<Rightarrow>
                Inr (if num_gt (value' (objects h validUtxo)) contribution
                     then validUtxo # kept else kept)))"

text \<open>
  The result object \<open>{ utxos, targets, ...validatedFeeAndVsize(...) }\<close>. Its \<open>utxos\<close> is
  a reference to an array; the one-element array \<open>targets\<close> and its object are created by
  the call and are given by their contents.
\<close>

record 'o Selection = FeeAndVsize +
  utxos' :: ref
  targets' :: "'o OutputWithValue list"

text \<open>
  \<open>maxFunds\<close> takes the store and the reference \<open>utxos\<close> of the caller's array. It fails
  (\<open>Inl\<close>), or returns the store after the call and either a selection or \<open>undefined\<close>
  (\<open>None\<close>).
\<close>

definition maxFunds ::
  "'o env \<Rightarrow> 'o heap \<Rightarrow> ref \<Rightarrow> 'o \<Rightarrow> number \<Rightarrow> number option
    \<Rightarrow> error + ('o heap \<times> 'o Selection option)" where
  "maxFunds env h utxos remainder feeRate dustRelayFeeRate =
     (let rate = dustRelayFeeRate_or_default env dustRelayFeeRate;
          elems = arrays h utxos
      in case validateOutputWithValues (map (objects h) elems) of
           Inl e \<Rightarrow> Inl e
         | Inr u1 \<Rightarrow>
      (case validateFeeRate env feeRate of
           Inl e \<Rightarrow> Inl e
         | Inr u2 \<Rightarrow>
      (case validateFeeRate env rate of
           Inl e \<Rightarrow> Inl e
         | Inr u3 \<Rightarrow>
      (case filterValidUtxos env h elems remainder feeRate elems of
           Inl e \<Rightarrow> Inl e
         | Inr kept \<Rightarrow>
      (let (validUtxos, h') = alloc_array h kept;
           validFee = allUtxosFee env h kept remainder feeRate;
           validUtxosValue = sumValues (map (objects h) kept);
           remainderValue = num_sub validUtxosValue validFee
       in if \<not> isDust env remainder remainderValue rate
          then (let targets = [\<lparr>output' = remainder, value' = remainderValue\<rparr>]
                in case validatedFeeAndVsize env (map (objects h) kept) targets feeRate of
                     Inl e \<Rightarrow> Inl e
                   | Inr fv \<Rightarrow>
                       Inr (h', Some \<lparr>fee' = fee' fv, vsize' = vsize' fv,
                                      utxos' = (if length elems = length kept
                                               then utxos else validUtxos),
                                      targets' = targets\<rparr>))
          else Inr (h', None))))))"

section \<open>The sweep of the specification\<close>

text \<open>
  The specification's description of the sweep, to compare \<open>maxFunds\<close> with: the fee of
  a set of inputs against the one recipient, the marginal fee contribution of a UTXO
  (the fee of the full set minus the fee of the set with that UTXO excluded) and the
  retained UTXOs (those whose value exceeds their own marginal contribution).
\<close>

definition sweepFee :: "'o env \<Rightarrow> 'o heap \<Rightarrow> 'o \<Rightarrow> number \<Rightarrow> ref list \<Rightarrow> number" where
  "sweepFee env h remainder feeRate inputs =
     num_ceil (num_mul feeRate (vsize env (map (output' \<circ> objects h) inputs) [remainder]))"

definition marginalFeeContribution ::
  "'o env \<Rightarrow> 'o heap \<Rightarrow> 'o \<Rightarrow> number \<Rightarrow> ref list \<Rightarrow> ref \<Rightarrow> number" where
  "marginalFeeContribution env h remainder feeRate inputs u =
     num_sub (sweepFee env h remainder feeRate inputs)
       (sweepFee env h remainder feeRate (removeAll u inputs))"

definition retainedUtxos :: "'o env \<Rightarrow> 'o heap \<Rightarrow> 'o \<Rightarrow> number \<Rightarrow> ref list \<Rightarrow> ref list" where
  "retainedUtxos env h remainder feeRate inputs =
     filter (\<lambda>u. num_gt (value' (objects h u))
                   (marginalFeeContribution env h remainder feeRate inputs u)) inputs"

section \<open>Predicates of the specification\<close>

text \<open>
  The invariant of a valued output in the specification: its value is a positive
  integer, at most \<open>10^14\<close>.
\<close>

definition supportedValue :: "number \<Rightarrow> bool" where
  "supportedValue v = (\<exists>n::int. v = Fin (of_int n) \<and> 0 < n \<and> n \<le> 10 ^ 14)"

text \<open>
  A target is dusty when the dust classifier holds of its output and its value at the
  relay fee rate of the call.
\<close>

definition dustyTarget :: "'o env \<Rightarrow> number option \<Rightarrow> 'o OutputWithValue \<Rightarrow> bool" where
  "dustyTarget env dustRelayFeeRate target =
     isDust env (output' target) (value' target)
       (dustRelayFeeRate_or_default env dustRelayFeeRate)"

text \<open>
  The fee, the virtual size and the realized fee rate of a selection, as
  \<open>validatedFeeAndVsize\<close> computes them: the sum of the values of the UTXOs minus the
  sum of the values of the targets, the size estimate of their outputs, and their
  quotient.
\<close>

definition feeOf :: "'o OutputWithValue list \<Rightarrow> 'o OutputWithValue list \<Rightarrow> number" where
  "feeOf utxos targets = num_sub (sumValues utxos) (sumValues targets)"

definition vsizeOf :: "'o env \<Rightarrow> 'o OutputWithValue list \<Rightarrow> 'o OutputWithValue list \<Rightarrow> number" where
  "vsizeOf env utxos targets = vsize env (map output' utxos) (map output' targets)"

definition realizedFeeRate ::
  "'o env \<Rightarrow> 'o OutputWithValue list \<Rightarrow> 'o OutputWithValue list \<Rightarrow> number" where
  "realizedFeeRate env utxos targets = num_div (feeOf utxos targets) (vsizeOf env utxos targets)"

text \<open>
  A call passes validation when the three validators at the head of \<open>maxFunds\<close>
  return: the one of the UTXOs, the one of the fee rate and the one of the relay fee rate
  (the rate given, or the default).
\<close>

definition passesValidation :: "'o env \<Rightarrow> 'o heap \<Rightarrow> ref \<Rightarrow> number \<Rightarrow> number option \<Rightarrow> bool" where
  "passesValidation env h utxos feeRate dustRelayFeeRate =
     (validateOutputWithValues (map (objects h) (arrays h utxos)) = Inr () \<and>
      validateFeeRate env feeRate = Inr () \<and>
      validateFeeRate env (dustRelayFeeRate_or_default env dustRelayFeeRate) = Inr ())"

text \<open>
  The value of the recipient: the sum of the values of the retained UTXOs minus the fee
  recomputed over the retained set.
\<close>

definition recipientValue :: "'o env \<Rightarrow> 'o heap \<Rightarrow> 'o \<Rightarrow> number \<Rightarrow> ref list \<Rightarrow> number" where
  "recipientValue env h remainder feeRate retained =
     num_sub (sumValues (map (objects h) retained)) (sweepFee env h remainder feeRate retained)"

text \<open>
  The virtual size is monotone in the input set: leaving inputs out, in the same order,
  never makes the estimate larger.
\<close>

definition vsizeMonotone :: "'o env \<Rightarrow> bool" where
  "vsizeMonotone env =
     (\<forall>ins ins' outs. subseq ins' ins \<longrightarrow> num_le (vsize env ins' outs) (vsize env ins outs))"

section \<open>A concrete configuration\<close>

text \<open>
  An instance of the parameters, on which the theorems are evaluated: a size estimator
  that is linear in the numbers of inputs and outputs (in the shape of a transaction of
  single-key witness outputs), a dust classifier that compares the value with the cost
  of an input at the relay fee rate, and two constants. Output handles are natural
  numbers.
\<close>

definition example_env :: "nat env" where
  "example_env =
     \<lparr>vsize = (\<lambda>ins outs. Fin (of_nat (11 + 68 * length ins + 31 * length outs))),
      isDust = (\<lambda>out v rate. num_lt v (num_mul rate (Fin 68))),
      MAX_FEE_RATE = Fin 10000,
      DUST_RELAY_FEE_RATE = Fin 3\<rparr>"

text \<open>
  A store with four arrays. The array at reference 0 holds object 0 of value 100000 and
  object 1 of value 50, which is less than the fee of its own input. The array at
  reference 1 holds object 0 alone. The arrays at references 2 and 3 hold object 0 and
  a second object, of value 69 and of value 70.
\<close>

definition example_heap :: "nat heap" where
  "example_heap =
     \<lparr>objects = (\<lambda>r. \<lparr>output' = 0,
                          value' = Fin (if r = 0 then 100000 else if r = 1 then 50
                                        else if r = 2 then 69 else 70)\<rparr>),
      arrays = (\<lambda>a. if a = 0 then [0, 1] else if a = 1 then [0]
                     else if a = 2 then [0, 2] else [0, 3]),
      free_ref = 4\<rparr>"

text \<open>
  A store with one array of 92 objects: 91 of value \<open>10^14\<close>, the greatest value that
  \<open>validateOutputWithValues\<close> accepts, and one of value 1001. The sum of the values is
  above \<open>2^53\<close>.
\<close>

definition large_heap :: "nat heap" where
  "large_heap =
     \<lparr>objects = (\<lambda>r. \<lparr>output' = 0,
                          value' = Fin (if r = 91 then 1001 else 100000000000000)\<rparr>),
      arrays = (\<lambda>a. [0..<92]),
      free_ref = 1\<rparr>"


section \<open>Properties of the rounding\<close>

subsection \<open>Rounding to the nearest integer\<close>

lemma rne_of_int [simp]: "rne (of_int n) = n"
  by (simp add: rne_def)

lemma rne_cases: "rne x = \<lfloor>x\<rfloor> \<or> rne x = \<lfloor>x\<rfloor> + 1"
  by (simp add: rne_def Let_def)

lemma rne_floor_le: "\<lfloor>x\<rfloor> \<le> rne x"
  using rne_cases [of x] by auto

lemma rne_le_floor_Suc: "rne x \<le> \<lfloor>x\<rfloor> + 1"
  using rne_cases [of x] by auto

lemma rne_mono:
  assumes "x \<le> y"
  shows "rne x \<le> rne y"
proof (cases "\<lfloor>x\<rfloor> = \<lfloor>y\<rfloor>")
  case True
  have "x - of_int \<lfloor>x\<rfloor> \<le> y - of_int \<lfloor>x\<rfloor>" using assms by simp
  then show ?thesis unfolding rne_def Let_def True [symmetric] by auto
next
  case False
  with assms have "\<lfloor>x\<rfloor> < \<lfloor>y\<rfloor>" using floor_mono [of x y] by simp
  then have "\<lfloor>x\<rfloor> + 1 \<le> \<lfloor>y\<rfloor>" by simp
  with rne_le_floor_Suc [of x] rne_floor_le [of y] show ?thesis by linarith
qed

lemma rne_le: "x \<le> of_int n \<Longrightarrow> rne x \<le> n"
  using rne_mono [of x "of_int n"] by simp

lemma rne_ge: "of_int n \<le> x \<Longrightarrow> n \<le> rne x"
  using rne_mono [of "of_int n" x] by simp

lemma rne_nearest:
  assumes "\<bar>x - of_int m\<bar> < 1 / 2"
  shows "rne x = m"
proof (cases "of_int m \<le> x")
  case True
  with assms have "\<lfloor>x\<rfloor> = m" by (intro floor_unique) (auto simp: abs_if split: if_splits)
  with assms True show ?thesis by (auto simp: rne_def Let_def abs_if split: if_splits)
next
  case False
  with assms have f: "\<lfloor>x\<rfloor> = m - 1" by (intro floor_unique) (auto simp: abs_if split: if_splits)
  with assms False show ?thesis by (auto simp: rne_def Let_def abs_if split: if_splits)
qed

lemma rne_tie_down: "even m \<Longrightarrow> rne (of_int m + 1 / 2) = m"
proof -
  assume e: "even m"
  have "\<lfloor>of_int m + 1 / 2 :: rat\<rfloor> = m" by (intro floor_unique) auto
  with e show ?thesis by (simp add: rne_def Let_def)
qed

lemma rne_tie_up: "odd m \<Longrightarrow> rne (of_int m + 1 / 2) = m + 1"
proof -
  assume e: "odd m"
  have "\<lfloor>of_int m + 1 / 2 :: rat\<rfloor> = m" by (intro floor_unique) auto
  with e show ?thesis by (simp add: rne_def Let_def)
qed

lemma rne_tie_below: "even m \<Longrightarrow> rne (of_int m - 1 / 2) = m"
proof -
  assume e: "even m"
  have "\<lfloor>of_int m - 1 / 2 :: rat\<rfloor> = m - 1" by (intro floor_unique) auto
  with e show ?thesis by (simp add: rne_def Let_def)
qed

lemma rne_eval:
  assumes "\<bar>x - of_int m\<bar> < 1 / 2 \<or> (\<bar>x - of_int m\<bar> = 1 / 2 \<and> even m)"
  shows "rne x = m"
proof (cases "\<bar>x - of_int m\<bar> < 1 / 2")
  case True
  then show ?thesis by (rule rne_nearest)
next
  case False
  with assms have t: "\<bar>x - of_int m\<bar> = 1 / 2" and e: "even m" by simp_all
  from t have "x = of_int m + 1 / 2 \<or> x = of_int m - 1 / 2" by (auto simp: abs_if split: if_splits)
  with e show ?thesis using rne_tie_down [of m] rne_tie_below [of m] by auto
qed

subsection \<open>The binary logarithm\<close>

lemma ilog2_bounds:
  assumes "0 < a"
  shows "2 powi ilog2 a \<le> a" and "a < 2 powi (ilog2 a + 1)"
proof -
  have "2 powi ilog2 a \<le> a \<and> a < 2 powi (ilog2 a + 1)"
  proof (cases "1 \<le> a")
    case True
    let ?n = "\<lfloor>a\<rfloor>"
    have n: "0 < ?n" using True by simp
    have k: "0 \<le> bitlen ?n - 1" using n bitlen_eq_zero_iff [of ?n] bitlen_nonneg [of ?n] by linarith
    from bitlen_bounds [OF n]
    have lo: "2 ^ nat (bitlen ?n - 1) \<le> ?n" and hi: "?n < 2 ^ nat (bitlen ?n)" by simp_all
    have "(2::rat) powi (bitlen ?n - 1) = of_int (2 ^ nat (bitlen ?n - 1))"
      using k by (simp add: power_int_nonneg_exp)
    also have "\<dots> \<le> of_int ?n" using lo by (simp only: of_int_le_iff)
    also have "\<dots> \<le> a" by simp
    finally have 1: "2 powi (bitlen ?n - 1) \<le> a" .
    have "?n + 1 \<le> 2 ^ nat (bitlen ?n)" using hi by simp
    then have "(of_int (?n + 1) :: rat) \<le> of_int (2 ^ nat (bitlen ?n))" by (simp only: of_int_le_iff)
    moreover have "a < of_int (?n + 1)" by simp linarith
    ultimately have "a < of_int (2 ^ nat (bitlen ?n))" by linarith
    also have "\<dots> = 2 powi (bitlen ?n - 1 + 1)"
      using k by (simp add: power_int_nonneg_exp)
    finally have 2: "a < 2 powi (bitlen ?n - 1 + 1)" .
    from 1 2 True show ?thesis by (simp add: ilog2_def)
  next
    case False
    let ?b = "1 / a"
    let ?m = "\<lceil>?b\<rceil>"
    let ?L = "bitlen (?m - 1)"
    have b: "1 < ?b" using False assms by simp
    then have m: "2 \<le> ?m" by linarith
    then have x: "0 < ?m - 1" by simp
    have L: "0 < ?L" using x bitlen_eq_zero_iff [of "?m - 1"] bitlen_nonneg [of "?m - 1"] by linarith
    from bitlen_bounds [OF x]
    have lo: "2 ^ nat (?L - 1) \<le> ?m - 1" and hi: "?m - 1 < 2 ^ nat ?L" by simp_all
    have "?m \<le> 2 ^ nat ?L" using hi by simp
    then have "(of_int ?m :: rat) \<le> of_int (2 ^ nat ?L)" by (simp only: of_int_le_iff)
    moreover have "?b \<le> of_int ?m" by simp
    ultimately have "?b \<le> of_int (2 ^ nat ?L)" by linarith
    also have "\<dots> = 2 powi ?L" using L by (simp add: power_int_nonneg_exp)
    finally have "1 / a \<le> 2 powi ?L" .
    then have "1 \<le> a * 2 powi ?L" using assms by (simp add: field_simps)
    then have "1 / 2 powi ?L \<le> a" by (simp add: field_simps)
    moreover have "(2::rat) powi (- ?L) = 1 / 2 powi ?L" by (rule power_int_minus_divide)
    ultimately have 1: "2 powi (- ?L) \<le> a" by simp
    have "(of_int (2 ^ nat (?L - 1)) :: rat) \<le> of_int (?m - 1)" using lo by (simp only: of_int_le_iff)
    moreover have "of_int (?m - 1) < ?b" by simp linarith
    ultimately have "of_int (2 ^ nat (?L - 1)) < ?b" by linarith
    moreover have "(of_int (2 ^ nat (?L - 1)) :: rat) = 2 powi (?L - 1)"
      using L by (simp add: power_int_nonneg_exp)
    ultimately have "2 powi (?L - 1) < 1 / a" by simp
    then have "a * 2 powi (?L - 1) < 1" using assms by (simp add: field_simps)
    then have "a < 1 / 2 powi (?L - 1)" by (simp add: field_simps)
    moreover have "(2::rat) powi (- (?L - 1)) = 1 / 2 powi (?L - 1)"
      by (rule power_int_minus_divide)
    ultimately have "a < 2 powi (- (?L - 1))" by simp
    moreover have "- (?L - 1) = - ?L + 1" by simp
    ultimately have 2: "a < 2 powi (- ?L + 1)" by simp
    from 1 2 False show ?thesis by (simp add: ilog2_def)
  qed
  then show "2 powi ilog2 a \<le> a" and "a < 2 powi (ilog2 a + 1)" by simp_all
qed

lemma powi_less_cancel: "(2::rat) powi m < 2 powi n \<Longrightarrow> m < n"
proof (rule ccontr)
  assume lt: "(2::rat) powi m < 2 powi n" and "\<not> m < n"
  then have "n \<le> m" by simp
  then have "(2::rat) powi n \<le> 2 powi m" by (intro power_int_increasing) simp_all
  with lt show False by simp
qed

lemma ilog2_unique:
  assumes "0 < a" and "2 powi k \<le> a" and "a < 2 powi (k + 1)"
  shows "ilog2 a = k"
proof -
  from ilog2_bounds [OF assms(1)] assms(2,3)
  have "(2::rat) powi ilog2 a < 2 powi (k + 1)" and "(2::rat) powi k < 2 powi (ilog2 a + 1)"
    by linarith+
  then have "ilog2 a < k + 1" and "k < ilog2 a + 1" by (auto dest: powi_less_cancel)
  then show ?thesis by simp
qed

lemma ilog2_mono:
  assumes "0 < a" and "a \<le> b"
  shows "ilog2 a \<le> ilog2 b"
proof -
  have b: "0 < b" using assms by simp
  from ilog2_bounds(1) [OF assms(1)] ilog2_bounds(2) [OF b] assms(2)
  have "(2::rat) powi ilog2 a < 2 powi (ilog2 b + 1)" by linarith
  then have "ilog2 a < ilog2 b + 1" by (rule powi_less_cancel)
  then show ?thesis by simp
qed

subsection \<open>The exponent of the last place\<close>

lemma exponent_ge: "- 1074 \<le> exponent a"
  by (simp add: exponent_def)

lemma exponent_upper:
  assumes "0 < a"
  shows "a < 2 powi (exponent a + 53)"
proof -
  have "ilog2 a + 1 \<le> exponent a + 53" by (simp add: exponent_def)
  then have "(2::rat) powi (ilog2 a + 1) \<le> 2 powi (exponent a + 53)"
    by (intro power_int_increasing) simp_all
  with ilog2_bounds(2) [OF assms] show ?thesis by linarith
qed

lemma exponent_lower:
  assumes "0 < a" and "- 1074 < exponent a"
  shows "2 powi (exponent a + 52) \<le> a"
proof -
  from assms(2) have "exponent a = ilog2 a - 52" by (simp add: exponent_def max_def split: if_splits)
  then have "exponent a + 52 = ilog2 a" by simp
  with ilog2_bounds(1) [OF assms(1)] show ?thesis by simp
qed

lemma exponent_mono:
  assumes "0 < a" and "a \<le> b"
  shows "exponent a \<le> exponent b"
  using ilog2_mono [OF assms] by (simp add: exponent_def)

lemma exponent_unique:
  assumes "0 < a" and "- 1074 \<le> e" and "a < 2 powi (e + 53)"
    and "e = - 1074 \<or> 2 powi (e + 52) \<le> a"
  shows "exponent a = e"
proof (cases "2 powi (e + 52) \<le> a")
  case True
  have eq: "e + 53 = e + 52 + 1" by simp
  from assms(3) have "a < 2 powi (e + 52 + 1)" unfolding eq .
  with assms(1) True have "ilog2 a = e + 52" by (rule ilog2_unique)
  with assms(2) show ?thesis by (simp add: exponent_def)
next
  case False
  with assms(4) have e: "e = - 1074" by simp
  from False ilog2_bounds(1) [OF assms(1)] have "(2::rat) powi ilog2 a < 2 powi (e + 52)"
    by linarith
  then have "ilog2 a < e + 52" by (rule powi_less_cancel)
  with e show ?thesis by (simp add: exponent_def)
qed

subsection \<open>Rounding a magnitude\<close>

lemma powi_pos: "0 < (2::rat) powi e"
  by simp

lemma round_magnitude_nonneg:
  assumes "0 < a"
  shows "0 \<le> round_magnitude a"
proof -
  have "0 \<le> a / 2 powi exponent a" using assms by simp
  then have "of_int 0 \<le> a / 2 powi exponent a" by simp
  then have "0 \<le> rne (a / 2 powi exponent a)" by (rule rne_ge)
  then show ?thesis by (simp add: round_magnitude_def)
qed

lemma round_magnitude_le_top:
  assumes "0 < a"
  shows "round_magnitude a \<le> 2 powi (exponent a + 53)"
proof -
  let ?e = "exponent a"
  have "a / 2 powi ?e < 2 powi (?e + 53) / 2 powi ?e"
    using exponent_upper [OF assms] by (simp add: divide_strict_right_mono)
  also have "\<dots> = 2 powi 53" by (simp add: power_int_add)
  also have "\<dots> = of_int (2 ^ 53)" by simp
  finally have "a / 2 powi ?e \<le> of_int (2 ^ 53)" by simp
  then have "rne (a / 2 powi ?e) \<le> 2 ^ 53" by (rule rne_le)
  then have "(of_int (rne (a / 2 powi ?e)) :: rat) \<le> of_int (2 ^ 53)" by (simp only: of_int_le_iff)
  then have "(of_int (rne (a / 2 powi ?e)) :: rat) * 2 powi ?e \<le> of_int (2 ^ 53) * 2 powi ?e"
    by (intro mult_right_mono) simp_all
  also have "\<dots> = 2 powi (?e + 53)" by (simp add: power_int_add)
  finally show ?thesis by (simp add: round_magnitude_def)
qed

lemma round_magnitude_ge_bottom:
  assumes "0 < a" and "- 1074 < exponent a"
  shows "2 powi (exponent a + 52) \<le> round_magnitude a"
proof -
  let ?e = "exponent a"
  have "2 powi (?e + 52) / 2 powi ?e \<le> a / 2 powi ?e"
    using exponent_lower [OF assms] by (simp add: divide_right_mono)
  moreover have "(2::rat) powi (?e + 52) / 2 powi ?e = of_int (2 ^ 52)" by (simp add: power_int_add)
  ultimately have "of_int (2 ^ 52) \<le> a / 2 powi ?e" by simp
  then have "2 ^ 52 \<le> rne (a / 2 powi ?e)" by (rule rne_ge)
  then have "(of_int (2 ^ 52) :: rat) \<le> of_int (rne (a / 2 powi ?e))" by (simp only: of_int_le_iff)
  then have m: "(of_int (2 ^ 52) :: rat) * 2 powi ?e \<le> of_int (rne (a / 2 powi ?e)) * 2 powi ?e"
    by (intro mult_right_mono) simp_all
  have "(of_int (2 ^ 52) :: rat) * 2 powi ?e = 2 powi (?e + 52)" by (simp add: power_int_add)
  with m have "(2::rat) powi (?e + 52) \<le> of_int (rne (a / 2 powi ?e)) * 2 powi ?e" by (simp only:)
  then show ?thesis by (simp only: round_magnitude_def)
qed

lemma round_magnitude_mono:
  assumes "0 < a" and "a \<le> b"
  shows "round_magnitude a \<le> round_magnitude b"
proof (cases "exponent a = exponent b")
  case True
  have "a / 2 powi exponent b \<le> b / 2 powi exponent b"
    using assms(2) by (simp add: divide_right_mono)
  then have "rne (a / 2 powi exponent b) \<le> rne (b / 2 powi exponent b)" by (rule rne_mono)
  then have "(of_int (rne (a / 2 powi exponent b)) :: rat) \<le> of_int (rne (b / 2 powi exponent b))"
    by (simp only: of_int_le_iff)
  then have "(of_int (rne (a / 2 powi exponent b)) :: rat) * 2 powi exponent b
      \<le> of_int (rne (b / 2 powi exponent b)) * 2 powi exponent b"
    by (intro mult_right_mono) simp_all
  then show ?thesis by (simp add: round_magnitude_def True)
next
  case False
  have b: "0 < b" using assms by simp
  from False exponent_mono [OF assms] have lt: "exponent a < exponent b" by simp
  with exponent_ge [of a] have "- 1074 < exponent b" by simp
  then have low: "2 powi (exponent b + 52) \<le> round_magnitude b"
    using b by (intro round_magnitude_ge_bottom)
  from lt have "exponent a + 53 \<le> exponent b + 52" by simp
  then have "(2::rat) powi (exponent a + 53) \<le> 2 powi (exponent b + 52)"
    by (intro power_int_increasing) simp_all
  with round_magnitude_le_top [OF assms(1)] low show ?thesis by linarith
qed

lemma round_magnitude_int:
  assumes "0 < n" and "n \<le> 2 ^ 53"
  shows "round_magnitude (of_int n) = of_int n"
proof -
  let ?a = "of_int n :: rat"
  let ?e = "exponent ?a"
  have a: "0 < ?a" using assms(1) by simp
  have le: "?a \<le> 2 powi 53" using assms(2)
  proof -
    have "?a \<le> of_int (2 ^ 53)" using assms(2) by (simp only: of_int_le_iff)
    then show ?thesis by simp
  qed
  have e1: "?e \<le> 1"
  proof (rule ccontr)
    assume "\<not> ?e \<le> 1"
    then have e: "2 \<le> ?e" by simp
    then have "- 1074 < ?e" by simp
    with a have "2 powi (?e + 52) \<le> ?a" by (rule exponent_lower)
    moreover have "(2::rat) powi 53 < 2 powi (?e + 52)"
      using e by (intro power_int_strict_increasing) simp_all
    ultimately show False using le by linarith
  qed
  show ?thesis
  proof (cases "?e \<le> 0")
    case True
    then have "(2::rat) powi ?e = 1 / 2 ^ nat (- ?e)"
      using power_int_minus_divide [of "2::rat" "- ?e"] by (simp add: power_int_nonneg_exp)
    then have "?a / 2 powi ?e = of_int (n * 2 ^ nat (- ?e))" by simp
    then have "rne (?a / 2 powi ?e) = n * 2 ^ nat (- ?e)" by (simp only: rne_of_int)
    then have "round_magnitude ?a = of_int (n * 2 ^ nat (- ?e)) * (1 / 2 ^ nat (- ?e))"
      using \<open>(2::rat) powi ?e = 1 / 2 ^ nat (- ?e)\<close> by (simp only: round_magnitude_def)
    then show ?thesis by simp
  next
    case False
    with e1 have e: "?e = 1" by simp
    then have "- 1074 < ?e" by simp
    with a have "2 powi (?e + 52) \<le> ?a" by (rule exponent_lower)
    with e have "2 powi 53 \<le> ?a" by simp
    with le have "?a = 2 powi 53" by simp
    then have eq: "?a = of_int (2 ^ 53)" by simp
    then have n: "n = 2 ^ 53" by (simp only: of_int_eq_iff)
    have "?a / 2 powi ?e = ?a / 2 powi 1" by (simp only: e)
    also have "\<dots> = of_int (2 ^ 52)" unfolding eq by simp
    finally have "rne (?a / 2 powi ?e) = 2 ^ 52" by (simp only: rne_of_int)
    then have "round_magnitude ?a = of_int (2 ^ 52) * 2 powi 1"
      using e by (simp only: round_magnitude_def)
    also have "\<dots> = of_int (2 ^ 53)" by simp
    finally show ?thesis by (simp only: eq)
  qed
qed

subsection \<open>Rounding to a double\<close>

lemma to_double_pos:
  "0 < x \<Longrightarrow> to_double x =
     (if 2 ^ 1024 \<le> round_magnitude x then PosInf else Fin (round_magnitude x))"
  by (simp add: to_double_def Let_def)

lemma to_double_neg:
  "x < 0 \<Longrightarrow> to_double x =
     (if 2 ^ 1024 \<le> round_magnitude (- x) then NegInf else Fin (- round_magnitude (- x)))"
  by (simp add: to_double_def Let_def)

lemma to_double_zero [simp]: "to_double 0 = Fin 0"
  by (simp add: to_double_def)

lemma to_double_not_NaN [simp]: "to_double x \<noteq> NaN"
  by (simp add: to_double_def Let_def)

lemma to_double_mono:
  assumes "x \<le> y"
  shows "num_le (to_double x) (to_double y)"
proof -
  consider "0 < x" | "y < 0" | "x \<le> 0" "0 \<le> y" using assms by linarith
  then show ?thesis
  proof cases
    case 1
    then have y: "0 < y" using assms by simp
    from round_magnitude_mono [OF 1 assms] show ?thesis
      by (simp add: to_double_pos 1 y)
  next
    case 2
    then have x: "x < 0" using assms by simp
    have "0 < - y" "- y \<le> - x" using 2 assms by simp_all
    then have "round_magnitude (- y) \<le> round_magnitude (- x)" by (rule round_magnitude_mono)
    then show ?thesis by (simp add: to_double_neg 2 x)
  next
    case 3
    have lo: "to_double x = Fin 0 \<or> to_double x = NegInf \<or> (\<exists>r\<le>0. to_double x = Fin r)"
    proof (cases "x = 0")
      case True
      then show ?thesis by simp
    next
      case False
      with 3 have x: "x < 0" by simp
      then have "0 \<le> round_magnitude (- x)" by (intro round_magnitude_nonneg) simp
      then show ?thesis by (simp add: to_double_neg x)
    qed
    have hi: "to_double y = PosInf \<or> (\<exists>r\<ge>0. to_double y = Fin r)"
    proof (cases "y = 0")
      case True
      then show ?thesis by simp
    next
      case False
      with 3 have y: "0 < y" by simp
      then have "0 \<le> round_magnitude y" by (rule round_magnitude_nonneg)
      then show ?thesis by (simp add: to_double_pos y)
    qed
    from lo hi show ?thesis by auto
  qed
qed

lemma to_double_int:
  assumes "\<bar>n\<bar> \<le> 2 ^ 53"
  shows "to_double (of_int n) = Fin (of_int n)"
proof -
  have small: "(of_int m :: rat) < 2 ^ 1024" if "m \<le> 2 ^ 53" for m :: int
  proof -
    have "(of_int m :: rat) \<le> of_int (2 ^ 53)" using that by (simp only: of_int_le_iff)
    also have "\<dots> < 2 ^ 1024" by simp
    finally show ?thesis .
  qed
  consider "n = 0" | "0 < n" | "n < 0" by linarith
  then show ?thesis
  proof cases
    case 1
    then show ?thesis by simp
  next
    case 2
    with assms have "n \<le> 2 ^ 53" by simp
    with 2 round_magnitude_int [of n] small [of n] show ?thesis
      by (simp add: to_double_pos)
  next
    case 3
    with assms have "0 < - n" "- n \<le> 2 ^ 53" by simp_all
    with round_magnitude_int [of "- n"] small [of "- n"] 3 show ?thesis
      by (simp add: to_double_neg)
  qed
qed

lemma to_double_scaled:
  fixes k :: nat
  assumes "k \<le> 1074" and "2 ^ 52 \<le> x * 2 ^ k" and "x * 2 ^ k < 2 ^ 53"
    and "\<bar>x * 2 ^ k - of_int m\<bar> < 1 / 2 \<or> (\<bar>x * 2 ^ k - of_int m\<bar> = 1 / 2 \<and> even m)"
  shows "to_double x = Fin (of_int m / 2 ^ k)"
proof -
  have m: "rne (x * 2 ^ k) = m" using assms(4) by (rule rne_eval)
  let ?e = "- int k"
  have p: "(2::rat) powi ?e = 1 / 2 ^ k"
    using power_int_minus_divide [of "2::rat" "int k"] by simp
  have x: "0 < x"
  proof (rule ccontr)
    assume "\<not> 0 < x"
    then have "x * 2 ^ k \<le> 0" by (simp add: mult_le_0_iff)
    with assms(2) show False by simp
  qed
  have up: "x < 2 powi (?e + 53)"
  proof -
    have "(2::rat) powi (?e + 53) = 2 powi ?e * 2 powi 53" by (rule power_int_add) simp
    also have "\<dots> = 2 ^ 53 / 2 ^ k" by (simp add: p)
    finally show ?thesis using assms(3) by (simp add: pos_less_divide_eq)
  qed
  have lo: "2 powi (?e + 52) \<le> x"
  proof -
    have "(2::rat) powi (?e + 52) = 2 powi ?e * 2 powi 52" by (rule power_int_add) simp
    also have "\<dots> = 2 ^ 52 / 2 ^ k" by (simp add: p)
    finally show ?thesis using assms(2) by (simp add: pos_divide_le_eq)
  qed
  have "exponent x = ?e"
    using x _ up by (rule exponent_unique) (use assms(1) lo in simp_all)
  then have r: "round_magnitude x = of_int m / 2 ^ k"
    using m by (simp add: round_magnitude_def p)
  have "rne (x * 2 ^ k) \<le> 2 ^ 53"
    using assms(3) by (intro rne_le) simp
  then have "(of_int m :: rat) \<le> of_int (2 ^ 53)" unfolding m by (simp only: of_int_le_iff)
  then have "(of_int m :: rat) \<le> 2 ^ 53 * 1" by simp
  also have "\<dots> \<le> 2 ^ 53 * 2 ^ k" by (intro mult_left_mono) simp_all
  finally have "of_int m / 2 ^ k \<le> (2 ^ 53 :: rat)" by (simp add: pos_divide_le_eq)
  also have "\<dots> < 2 ^ 1024" by simp
  finally show ?thesis using x r by (simp add: to_double_pos)
qed

lemma to_double_scaled_up:
  fixes k :: nat
  assumes "k \<le> 970" and "2 ^ 52 \<le> x / 2 ^ k" and "x / 2 ^ k < 2 ^ 53"
    and "\<bar>x / 2 ^ k - of_int m\<bar> < 1 / 2 \<or> (\<bar>x / 2 ^ k - of_int m\<bar> = 1 / 2 \<and> even m)"
  shows "to_double x = Fin (of_int m * 2 ^ k)"
proof -
  have m: "rne (x / 2 ^ k) = m" using assms(4) by (rule rne_eval)
  let ?e = "int k"
  have p: "(2::rat) powi ?e = 2 ^ k" by simp
  have x: "0 < x"
  proof (rule ccontr)
    assume "\<not> 0 < x"
    then have "x / 2 ^ k \<le> 0" by (simp add: divide_le_0_iff)
    with assms(2) show False by simp
  qed
  have up: "x < 2 powi (?e + 53)"
  proof -
    have "(2::rat) powi (?e + 53) = 2 powi ?e * 2 powi 53" by (rule power_int_add) simp
    also have "\<dots> = 2 ^ 53 * 2 ^ k" by (simp add: p)
    finally show ?thesis using assms(3) by (simp add: pos_divide_less_eq)
  qed
  have lo: "2 powi (?e + 52) \<le> x"
  proof -
    have "(2::rat) powi (?e + 52) = 2 powi ?e * 2 powi 52" by (rule power_int_add) simp
    also have "\<dots> = 2 ^ 52 * 2 ^ k" by (simp add: p)
    finally show ?thesis using assms(2) by (simp add: pos_le_divide_eq)
  qed
  have "exponent x = ?e"
    using x _ up by (rule exponent_unique) (use lo in simp_all)
  then have r: "round_magnitude x = of_int m * 2 ^ k"
    using m by (simp add: round_magnitude_def)
  have "rne (x / 2 ^ k) \<le> 2 ^ 53"
    using assms(3) by (intro rne_le) simp
  then have "(of_int m :: rat) \<le> of_int (2 ^ 53)" unfolding m by (simp only: of_int_le_iff)
  then have "(of_int m :: rat) \<le> 2 ^ 53" by simp
  then have "of_int m * 2 ^ k \<le> (2 ^ 53 :: rat) * 2 ^ k" by (intro mult_right_mono) simp_all
  also have "\<dots> = 2 ^ (53 + k)" by (simp add: power_add)
  also have "\<dots> < 2 ^ 1024" using assms(1) by (intro power_strict_increasing) simp_all
  finally show ?thesis using x r by (simp add: to_double_pos)
qed

lemma to_double_numeral [simp]:
  "numeral k \<le> (9007199254740992::int) \<Longrightarrow> to_double (numeral k) = Fin (numeral k)"
  using to_double_int [of "numeral k"] by simp

lemma to_double_neg_numeral [simp]:
  "numeral k \<le> (9007199254740992::int) \<Longrightarrow> to_double (- numeral k) = Fin (- numeral k)"
  using to_double_int [of "- numeral k"] by simp

lemma to_double_one [simp]: "to_double 1 = Fin 1"
  using to_double_int [of 1] by simp

subsection \<open>Evaluation on numerals\<close>

lemma floor_rat_numeral [simp]: "\<lfloor>numeral a / numeral b :: rat\<rfloor> = numeral a div numeral b"
  using floor_divide_of_int_eq [of "numeral a" "numeral b", where ?'a = rat] by simp

lemma ceiling_rat_numeral [simp]:
  "\<lceil>numeral a / numeral b :: rat\<rceil> = - (- numeral a div numeral b)"
proof -
  have "\<lceil>numeral a / numeral b :: rat\<rceil> = - \<lfloor>of_int (- numeral a) / of_int (numeral b) :: rat\<rfloor>"
    by (simp add: ceiling_def)
  also have "\<dots> = - (- numeral a div numeral b)"
    by (simp only: floor_divide_of_int_eq)
  finally show ?thesis .
qed


section \<open>The validators\<close>

subsection \<open>validateOutputWithValues\<close>

lemma isInteger_Fin_iff: "isInteger (Fin r) \<longleftrightarrow> (\<exists>n::int. r = of_int n)"
proof
  assume "isInteger (Fin r)"
  then have "of_int \<lfloor>r\<rfloor> = r" by (simp only: isInteger.simps)
  then have "r = of_int \<lfloor>r\<rfloor>" by (rule sym)
  then show "\<exists>n::int. r = of_int n" ..
next
  assume "\<exists>n::int. r = of_int n"
  then obtain n :: int where "r = of_int n" ..
  then show "isInteger (Fin r)" by simp
qed

lemma entry_check_iff:
  "(\<not> isInteger v \<or> num_le v (Fin 0) \<or> num_gt v (Fin 100000000000000)) \<longleftrightarrow> \<not> supportedValue v"
proof (cases v)
  case (Fin r)
  show ?thesis
  proof (cases "isInteger (Fin r)")
    case True
    then obtain n :: int where n: "r = of_int n" using isInteger_Fin_iff by blast
    have "(of_int n \<le> (of_int 100000000000000 :: rat)) = (n \<le> 100000000000000)"
      by (rule of_int_le_iff)
    then have le: "(of_int n \<le> (100000000000000::rat)) = (n \<le> 100000000000000)" by simp
    have "supportedValue (Fin (of_int n)) \<longleftrightarrow> 0 < n \<and> n \<le> 100000000000000"
      by (auto simp: supportedValue_def)
    then show ?thesis using Fin n True le
      by (simp add: num_gt_def not_le not_less) 
  next
    case False
    then have "\<not> supportedValue (Fin r)" using isInteger_Fin_iff by (auto simp: supportedValue_def)
    then show ?thesis using Fin False by simp
  qed
qed (simp_all add: supportedValue_def num_gt_def)

lemma validateValues_ok:
  "validateValues xs = Inr () \<longleftrightarrow> (\<forall>x\<in>set xs. supportedValue (value' x))"
proof (induction xs)
  case Nil
  show ?case by simp
next
  case (Cons x xs)
  show ?case
  proof (cases "supportedValue (value' x)")
    case True
    with entry_check_iff [of "value' x"] Cons show ?thesis by (simp add: Let_def)
  next
    case False
    with entry_check_iff [of "value' x"] show ?thesis by (simp add: Let_def)
  qed
qed

lemma validateValues_error:
  "validateValues xs = Inl e \<longleftrightarrow>
     (\<exists>i<length xs. e = InvalidValueError (value' (xs ! i)) \<and> \<not> supportedValue (value' (xs ! i)) \<and>
        (\<forall>j<i. supportedValue (value' (xs ! j))))"
proof (induction xs)
  case Nil
  show ?case by simp
next
  case (Cons x xs)
  let ?Q = "\<lambda>ys i. e = InvalidValueError (value' (ys ! i)) \<and> \<not> supportedValue (value' (ys ! i)) \<and>
        (\<forall>j<i. supportedValue (value' (ys ! j)))"
  show ?case
  proof (cases "supportedValue (value' x)")
    case True
    have step: "validateValues (x # xs) = validateValues xs"
      using entry_check_iff [of "value' x"] True by (simp add: Let_def)
    have "(\<exists>i<length (x # xs). ?Q (x # xs) i) \<longleftrightarrow> (\<exists>k<length xs. ?Q xs k)"
    proof
      assume "\<exists>i<length (x # xs). ?Q (x # xs) i"
      then obtain i where i: "i < length (x # xs)" "?Q (x # xs) i" by blast
      from i True obtain k where k: "i = Suc k" by (cases i) auto
      have "\<forall>j<k. supportedValue (value' (xs ! j))"
      proof (intro allI impI)
        fix j assume "j < k"
        then have "Suc j < i" using k by simp
        with i have "supportedValue (value' ((x # xs) ! Suc j))" by blast
        then show "supportedValue (value' (xs ! j))" by simp
      qed
      with i k have "k < length xs \<and> ?Q xs k" by simp
      then show "\<exists>k<length xs. ?Q xs k" by blast
    next
      assume "\<exists>k<length xs. ?Q xs k"
      then obtain k where k: "k < length xs" "?Q xs k" by blast
      have "\<forall>j<Suc k. supportedValue (value' ((x # xs) ! j))"
      proof (intro allI impI)
        fix j assume "j < Suc k"
        then show "supportedValue (value' ((x # xs) ! j))" using k True by (cases j) auto
      qed
      with k have "Suc k < length (x # xs) \<and> ?Q (x # xs) (Suc k)" by simp
      then show "\<exists>i<length (x # xs). ?Q (x # xs) i" by blast
    qed
    with step Cons.IH show ?thesis by simp
  next
    case False
    have step: "validateValues (x # xs) = Inl (InvalidValueError (value' x))"
      using entry_check_iff [of "value' x"] False by (simp add: Let_def)
    have "(\<exists>i<length (x # xs). ?Q (x # xs) i) \<longleftrightarrow> e = InvalidValueError (value' x)"
    proof
      assume "\<exists>i<length (x # xs). ?Q (x # xs) i"
      then obtain i where i: "i < length (x # xs)" "?Q (x # xs) i" by blast
      have "i = 0"
      proof (rule ccontr)
        assume "i \<noteq> 0"
        then have "0 < i" by simp
        with i have "supportedValue (value' ((x # xs) ! 0))" by blast
        with False show False by simp
      qed
      with i show "e = InvalidValueError (value' x)" by simp
    next
      assume "e = InvalidValueError (value' x)"
      with False have "0 < length (x # xs) \<and> ?Q (x # xs) 0" by simp
      then show "\<exists>i<length (x # xs). ?Q (x # xs) i" by blast
    qed
    with step show ?thesis by auto
  qed
qed

text \<open>
  Claim C5. \<open>validateOutputWithValues\<close> fails with the empty-group error exactly when
  the list is empty. Otherwise it fails with the invalid-value error exactly when some
  entry has a value that is not an integer in \<open>(0, 10^14]\<close>, and the error carries the
  value of the first such entry. It returns without failure exactly when the list is not
  empty and every value is an integer in \<open>(0, 10^14]\<close>.
\<close>

theorem validateOutputWithValues_spec:
  "(validateOutputWithValues xs = Inl EmptyGroupError \<longleftrightarrow> xs = []) \<and>
   (\<forall>v. validateOutputWithValues xs = Inl (InvalidValueError v) \<longleftrightarrow>
      (\<exists>i<length xs. value' (xs ! i) = v \<and> \<not> supportedValue v \<and>
         (\<forall>j<i. supportedValue (value' (xs ! j))))) \<and>
   (validateOutputWithValues xs = Inr () \<longleftrightarrow>
      xs \<noteq> [] \<and> (\<forall>x\<in>set xs. supportedValue (value' x)))"
proof (cases "xs = []")
  case True
  then show ?thesis by (simp add: validateOutputWithValues_def)
next
  case False
  then have v: "validateOutputWithValues xs = validateValues xs"
    by (simp add: validateOutputWithValues_def)
  have "validateValues xs \<noteq> Inl EmptyGroupError"
    using validateValues_error [of xs EmptyGroupError] by simp
  moreover have "validateValues xs = Inl (InvalidValueError w) \<longleftrightarrow>
      (\<exists>i<length xs. value' (xs ! i) = w \<and> \<not> supportedValue w \<and>
         (\<forall>j<i. supportedValue (value' (xs ! j))))" for w
    using validateValues_error [of xs "InvalidValueError w"] by auto
  ultimately show ?thesis using False v validateValues_ok [of xs] by simp
qed

theorem validateOutputWithValues_spec_witness:
  "validateOutputWithValues
     [\<lparr>output' = (0::nat), value' = Fin 5\<rparr>, \<lparr>output' = 1, value' = Fin (1 / 2)\<rparr>]
     = Inl (InvalidValueError (Fin (1 / 2))) \<and>
   validateOutputWithValues [\<lparr>output' = (0::nat), value' = Fin 5\<rparr>] = Inr () \<and>
   supportedValue (Fin 5) \<and> \<not> supportedValue (Fin (1 / 2))"
proof -
  let ?a = "\<lparr>output' = (0::nat), value' = Fin 5\<rparr>"
  let ?b = "\<lparr>output' = (1::nat), value' = Fin (1 / 2)\<rparr>"
  have five: "supportedValue (Fin 5)"
    unfolding supportedValue_def by (rule exI [of _ 5]) simp
  have "\<lfloor>1 / 2 :: rat\<rfloor> = 0" by (rule floor_unique) simp_all
  then have "\<not> isInteger (Fin (1 / 2))" by simp
  then have half: "\<not> supportedValue (Fin (1 / 2))"
    using entry_check_iff [of "Fin (1 / 2)"] by simp
  have "(1::nat) < length [?a, ?b] \<and> value' ([?a, ?b] ! 1) = Fin (1 / 2) \<and>
         \<not> supportedValue (Fin (1 / 2)) \<and> (\<forall>j<1. supportedValue (value' ([?a, ?b] ! j)))"
    using five half by simp
  then have ex: "\<exists>i<length [?a, ?b]. value' ([?a, ?b] ! i) = Fin (1 / 2) \<and>
         \<not> supportedValue (Fin (1 / 2)) \<and> (\<forall>j<i. supportedValue (value' ([?a, ?b] ! j)))"
    by (rule exI)
  have bad: "validateOutputWithValues [?a, ?b] = Inl (InvalidValueError (Fin (1 / 2)))"
    by (rule validateOutputWithValues_spec [of "[?a, ?b]", THEN conjunct2, THEN conjunct1,
          THEN spec, THEN iffD2, OF ex])
  have "[?a] \<noteq> [] \<and> (\<forall>x\<in>set [?a]. supportedValue (value' x))" using five by simp
  then have good: "validateOutputWithValues [?a] = Inr ()"
    by (rule validateOutputWithValues_spec [of "[?a]", THEN conjunct2, THEN conjunct2, THEN iffD2])
  show ?thesis using bad good five half by (intro conjI)
qed

subsection \<open>validateFeeRate\<close>

lemma validateFeeRate_cases:
  "validateFeeRate env rate = Inr () \<or> validateFeeRate env rate = Inl (InvalidFeeRateError rate)"
  by (simp add: validateFeeRate_def)

text \<open>
  Claim C6. \<open>validateFeeRate\<close> fails exactly when the rate is not finite, less than 1 or
  greater than \<open>MAX_FEE_RATE\<close>, and then with the invalid-fee-rate error of that rate;
  a finite rate is accepted exactly when it lies between 1 and a finite \<open>MAX_FEE_RATE\<close>.
  The rate 0.5 is rejected, whatever the maximum.
\<close>

theorem validateFeeRate_spec:
  "(validateFeeRate env rate = Inl (InvalidFeeRateError rate) \<longleftrightarrow>
      \<not> isFinite rate \<or> num_lt rate (Fin 1) \<or> num_gt rate (MAX_FEE_RATE env)) \<and>
   (\<forall>e. validateFeeRate env rate = Inl e \<longrightarrow> e = InvalidFeeRateError rate) \<and>
   (\<forall>r m. rate = Fin r \<and> MAX_FEE_RATE env = Fin m \<longrightarrow>
      (validateFeeRate env rate = Inr () \<longleftrightarrow> 1 \<le> r \<and> r \<le> m)) \<and>
   validateFeeRate env (Fin (1 / 2)) = Inl (InvalidFeeRateError (Fin (1 / 2)))"
proof (intro conjI allI impI)
  show "validateFeeRate env rate = Inl (InvalidFeeRateError rate) \<longleftrightarrow>
      \<not> isFinite rate \<or> num_lt rate (Fin 1) \<or> num_gt rate (MAX_FEE_RATE env)"
    by (simp add: validateFeeRate_def)
next
  fix e assume "validateFeeRate env rate = Inl e"
  then show "e = InvalidFeeRateError rate"
    using validateFeeRate_cases [of env rate] by auto
next
  fix r m assume "rate = Fin r \<and> MAX_FEE_RATE env = Fin m"
  then have "rate = Fin r" and "MAX_FEE_RATE env = Fin m" by simp_all
  then show "validateFeeRate env rate = Inr () \<longleftrightarrow> 1 \<le> r \<and> r \<le> m"
    by (simp add: validateFeeRate_def num_gt_def not_less)
next
  show "validateFeeRate env (Fin (1 / 2)) = Inl (InvalidFeeRateError (Fin (1 / 2)))"
    by (simp add: validateFeeRate_def)
qed

theorem validateFeeRate_spec_witness:
  "validateFeeRate example_env (Fin 2) = Inr () \<and>
   validateFeeRate example_env (Fin 10001) = Inl (InvalidFeeRateError (Fin 10001)) \<and>
   validateFeeRate example_env PosInf = Inl (InvalidFeeRateError PosInf)"
proof -
  have m: "MAX_FEE_RATE example_env = Fin 10000" by (simp add: example_env_def)
  have "validateFeeRate example_env (Fin 2) = Inr () \<longleftrightarrow> (1::rat) \<le> 2 \<and> (2::rat) \<le> 10000"
    using validateFeeRate_spec [of example_env "Fin 2", THEN conjunct2, THEN conjunct2,
        THEN conjunct1, rule_format, of 2 10000] m by simp
  then have a: "validateFeeRate example_env (Fin 2) = Inr ()" by simp
  have "num_gt (Fin 10001) (MAX_FEE_RATE example_env)" using m by (simp add: num_gt_def)
  then have b: "validateFeeRate example_env (Fin 10001) = Inl (InvalidFeeRateError (Fin 10001))"
    using validateFeeRate_spec [of example_env "Fin 10001", THEN conjunct1] by simp
  have "\<not> isFinite PosInf" by simp
  then have c: "validateFeeRate example_env PosInf = Inl (InvalidFeeRateError PosInf)"
    using validateFeeRate_spec [of example_env PosInf, THEN conjunct1] by simp
  show ?thesis using a b c by (intro conjI)
qed

subsection \<open>validateDust\<close>

lemma validateDustEntries_ok:
  "validateDustEntries env rate (enumerate n xs) = Inr () \<longleftrightarrow>
     (\<forall>t\<in>set xs. \<not> isDust env (output' t) (value' t) rate)"
  by (induction xs arbitrary: n) simp_all

lemma validateDustEntries_error:
  "validateDustEntries env rate (enumerate n xs) = Inl e \<longleftrightarrow>
     (\<exists>i<length xs. e = DustTargetError (n + i) \<and>
        isDust env (output' (xs ! i)) (value' (xs ! i)) rate \<and>
        (\<forall>j<i. \<not> isDust env (output' (xs ! j)) (value' (xs ! j)) rate))"
proof (induction xs arbitrary: n)
  case Nil
  show ?case by simp
next
  case (Cons x xs)
  let ?D = "\<lambda>t. isDust env (output' t) (value' t) rate"
  let ?Q = "\<lambda>m ys i. e = DustTargetError (m + i) \<and> ?D (ys ! i) \<and> (\<forall>j<i. \<not> ?D (ys ! j))"
  show ?case
  proof (cases "?D x")
    case True
    have step: "validateDustEntries env rate (enumerate n (x # xs)) = Inl (DustTargetError n)"
      using True by simp
    have "(\<exists>i<length (x # xs). ?Q n (x # xs) i) \<longleftrightarrow> e = DustTargetError n"
    proof
      assume "\<exists>i<length (x # xs). ?Q n (x # xs) i"
      then obtain i where i: "i < length (x # xs)" "?Q n (x # xs) i" by blast
      have "i = 0"
      proof (rule ccontr)
        assume "i \<noteq> 0"
        then have "0 < i" by simp
        with i have "\<not> ?D ((x # xs) ! 0)" by blast
        with True show False by simp
      qed
      with i show "e = DustTargetError n" by simp
    next
      assume "e = DustTargetError n"
      with True have "0 < length (x # xs) \<and> ?Q n (x # xs) 0" by simp
      then show "\<exists>i<length (x # xs). ?Q n (x # xs) i" by blast
    qed
    with step show ?thesis by auto
  next
    case False
    have step: "validateDustEntries env rate (enumerate n (x # xs)) =
        validateDustEntries env rate (enumerate (Suc n) xs)"
      using False by simp
    have "(\<exists>i<length (x # xs). ?Q n (x # xs) i) \<longleftrightarrow> (\<exists>k<length xs. ?Q (Suc n) xs k)"
    proof
      assume "\<exists>i<length (x # xs). ?Q n (x # xs) i"
      then obtain i where i: "i < length (x # xs)" "?Q n (x # xs) i" by blast
      from i False obtain k where k: "i = Suc k" by (cases i) auto
      have "\<forall>j<k. \<not> ?D (xs ! j)"
      proof (intro allI impI)
        fix j assume "j < k"
        then have "Suc j < i" using k by simp
        with i have "\<not> ?D ((x # xs) ! Suc j)" by blast
        then show "\<not> ?D (xs ! j)" by simp
      qed
      with i k have "k < length xs \<and> ?Q (Suc n) xs k" by simp
      then show "\<exists>k<length xs. ?Q (Suc n) xs k" by blast
    next
      assume "\<exists>k<length xs. ?Q (Suc n) xs k"
      then obtain k where k: "k < length xs" "?Q (Suc n) xs k" by blast
      have "\<forall>j<Suc k. \<not> ?D ((x # xs) ! j)"
      proof (intro allI impI)
        fix j assume "j < Suc k"
        then show "\<not> ?D ((x # xs) ! j)" using k False by (cases j) auto
      qed
      with k have "Suc k < length (x # xs) \<and> ?Q n (x # xs) (Suc k)" by simp
      then show "\<exists>i<length (x # xs). ?Q n (x # xs) i" by blast
    qed
    with step Cons.IH [of "Suc n"] show ?thesis by simp
  qed
qed

text \<open>
  Claim C7. \<open>validateDust\<close> fails with the dust error of index \<open>i\<close> exactly when the
  target at \<open>i\<close> is the first dusty target, in the order of the input; it returns
  without failure exactly when no target is dusty; it raises no other error; and the
  targets after the first dusty one do not change the reported index.
\<close>

theorem validateDust_spec:
  "(\<forall>i. validateDust env targets dustRelayFeeRate = Inl (DustTargetError i) \<longleftrightarrow>
      i < length targets \<and> dustyTarget env dustRelayFeeRate (targets ! i) \<and>
      (\<forall>j<i. \<not> dustyTarget env dustRelayFeeRate (targets ! j))) \<and>
   (validateDust env targets dustRelayFeeRate = Inr () \<longleftrightarrow>
      (\<forall>t\<in>set targets. \<not> dustyTarget env dustRelayFeeRate t)) \<and>
   (\<forall>e. validateDust env targets dustRelayFeeRate = Inl e \<longrightarrow> (\<exists>i. e = DustTargetError i)) \<and>
   (\<forall>i later. validateDust env targets dustRelayFeeRate = Inl (DustTargetError i) \<longrightarrow>
      validateDust env (take (Suc i) targets @ later) dustRelayFeeRate = Inl (DustTargetError i))"
proof -
  let ?rate = "dustRelayFeeRate_or_default env dustRelayFeeRate"
  let ?D = "dustyTarget env dustRelayFeeRate"
  have err: "validateDust env ts dustRelayFeeRate = Inl e \<longleftrightarrow>
      (\<exists>i<length ts. e = DustTargetError i \<and> ?D (ts ! i) \<and> (\<forall>j<i. \<not> ?D (ts ! j)))" for ts e
    using validateDustEntries_error [of env ?rate 0 ts e]
    by (simp add: validateDust_def dustyTarget_def)
  have first: "validateDust env ts dustRelayFeeRate = Inl (DustTargetError i) \<longleftrightarrow>
      i < length ts \<and> ?D (ts ! i) \<and> (\<forall>j<i. \<not> ?D (ts ! j))" for ts i
    using err [of ts "DustTargetError i"] by auto
  have ok: "validateDust env targets dustRelayFeeRate = Inr () \<longleftrightarrow> (\<forall>t\<in>set targets. \<not> ?D t)"
    using validateDustEntries_ok [of env ?rate 0 targets]
    by (simp add: validateDust_def dustyTarget_def)
  have only: "\<exists>i. e = DustTargetError i" if "validateDust env targets dustRelayFeeRate = Inl e" for e
    using that err [of targets e] by blast
  have later: "validateDust env (take (Suc i) targets @ later) dustRelayFeeRate = Inl (DustTargetError i)"
    if "validateDust env targets dustRelayFeeRate = Inl (DustTargetError i)" for i later
  proof -
    let ?ys = "take (Suc i) targets @ later"
    from that first [of targets i]
    have i: "i < length targets" "?D (targets ! i)" "\<forall>j<i. \<not> ?D (targets ! j)" by simp_all
    have same: "?ys ! j = targets ! j" if "j \<le> i" for j
      using that i(1) by (simp add: nth_append)
    have "i < length ?ys" using i(1) by simp
    moreover have "?D (?ys ! i)" using same [of i] i(2) by simp
    moreover have "\<forall>j<i. \<not> ?D (?ys ! j)"
    proof (intro allI impI)
      fix j assume "j < i"
      then show "\<not> ?D (?ys ! j)" using same [of j] i(3) by simp
    qed
    ultimately show ?thesis using first [of ?ys i] by simp
  qed
  show ?thesis
  proof (intro conjI allI impI)
    fix i show "validateDust env targets dustRelayFeeRate = Inl (DustTargetError i) \<longleftrightarrow>
      i < length targets \<and> ?D (targets ! i) \<and> (\<forall>j<i. \<not> ?D (targets ! j))"
      by (rule first)
  next
    show "validateDust env targets dustRelayFeeRate = Inr () \<longleftrightarrow> (\<forall>t\<in>set targets. \<not> ?D t)"
      by (rule ok)
  next
    fix e assume "validateDust env targets dustRelayFeeRate = Inl e"
    then show "\<exists>i. e = DustTargetError i" by (rule only)
  next
    fix i later assume "validateDust env targets dustRelayFeeRate = Inl (DustTargetError i)"
    then show "validateDust env (take (Suc i) targets @ later) dustRelayFeeRate = Inl (DustTargetError i)"
      by (rule later)
  qed
qed


theorem validateDust_spec_witness:
  "validateDust example_env
     [\<lparr>output' = 0, value' = Fin 1000\<rparr>, \<lparr>output' = 1, value' = Fin 1\<rparr>,
      \<lparr>output' = 2, value' = Fin 2\<rparr>] None = Inl (DustTargetError 1) \<and>
   validateDust example_env [\<lparr>output' = 0, value' = Fin 1\<rparr>] (Some (Fin 3))
     = Inl (DustTargetError 0) \<and>
   validateDust example_env [\<lparr>output' = 0, value' = Fin 1000\<rparr>] None = Inr ()"
proof -
  let ?a = "\<lparr>output' = (0::nat), value' = Fin 1000\<rparr>"
  let ?b = "\<lparr>output' = (1::nat), value' = Fin 1\<rparr>"
  let ?c = "\<lparr>output' = (2::nat), value' = Fin 2\<rparr>"
  let ?d = "\<lparr>output' = (0::nat), value' = Fin 1\<rparr>"
  have dusty: "dustyTarget example_env r \<lparr>output' = out, value' = Fin v\<rparr> \<longleftrightarrow> v < 204"
    if "r = None \<or> r = Some (Fin 3)" for r out v
    using that by (auto simp: dustyTarget_def example_env_def dustRelayFeeRate_or_default_def)
  have "1 < length [?a, ?b, ?c] \<and> dustyTarget example_env None ([?a, ?b, ?c] ! 1) \<and>
      (\<forall>j<1. \<not> dustyTarget example_env None ([?a, ?b, ?c] ! j))"
    by (simp add: dusty)
  then have first: "validateDust example_env [?a, ?b, ?c] None = Inl (DustTargetError 1)"
    by (rule validateDust_spec [of example_env "[?a, ?b, ?c]" None, THEN conjunct1, THEN spec,
          THEN iffD2])
  have "0 < length [?d] \<and> dustyTarget example_env (Some (Fin 3)) ([?d] ! 0) \<and>
      (\<forall>j<0. \<not> dustyTarget example_env (Some (Fin 3)) ([?d] ! j))"
    by (simp add: dusty)
  then have scenario: "validateDust example_env [?d] (Some (Fin 3)) = Inl (DustTargetError 0)"
    by (rule validateDust_spec [of example_env "[?d]" "Some (Fin 3)", THEN conjunct1, THEN spec,
          THEN iffD2])
  have "\<forall>t\<in>set [?a]. \<not> dustyTarget example_env None t" by (simp add: dusty)
  then have none: "validateDust example_env [?a] None = Inr ()"
    by (rule validateDust_spec [of example_env "[?a]" None, THEN conjunct2, THEN conjunct1,
          THEN iffD2])
  show ?thesis using first scenario none by (intro conjI)
qed


subsection \<open>validatedFeeAndVsize\<close>

lemma foldl_num_add_ints:
  assumes "map value' xs = map (\<lambda>n. Fin (of_int n)) ns" and "\<forall>n\<in>set ns. 0 \<le> n"
    and "0 \<le> a0" and "a0 + sum_list ns \<le> 2 ^ 53"
  shows "foldl (\<lambda>a x. num_add a (value' x)) (Fin (of_int a0)) xs
           = Fin (of_int (a0 + sum_list ns))"
  using assms
proof (induction xs arbitrary: a0 ns)
  case Nil
  then show ?case by simp
next
  case (Cons x xs)
  then obtain n ns' where ns: "ns = n # ns'" "value' x = Fin (of_int n)"
      "map value' xs = map (\<lambda>n. Fin (of_int n)) ns'"
    by (cases ns) auto
  have pos: "0 \<le> n" "\<forall>m\<in>set ns'. 0 \<le> m" using Cons.prems(2) ns(1) by simp_all
  then have rest: "0 \<le> sum_list ns'" by (simp add: sum_list_nonneg)
  have bound: "a0 + n + sum_list ns' \<le> 2 ^ 53" using Cons.prems(4) ns(1) by simp
  have "\<bar>a0 + n\<bar> \<le> 2 ^ 53" using Cons.prems(3) pos(1) rest bound by simp
  then have "to_double (of_int (a0 + n)) = Fin (of_int (a0 + n))" by (rule to_double_int)
  then have step: "num_add (Fin (of_int a0)) (value' x) = Fin (of_int (a0 + n))"
    by (simp add: ns(2))
  have "0 \<le> a0 + n" using Cons.prems(3) pos(1) by simp
  from Cons.IH [OF ns(3) pos(2) this bound] step show ?case
    by (simp add: ns(1) add.assoc)
qed

lemma sumValues_ints:
  assumes "map value' xs = map (\<lambda>n. Fin (of_int n)) ns" and "\<forall>n\<in>set ns. 0 \<le> n"
    and "sum_list ns \<le> 2 ^ 53"
  shows "sumValues xs = Fin (of_int (sum_list ns))"
  using foldl_num_add_ints [OF assms(1,2), of 0] assms(3) by (simp add: sumValues_def)

lemma num_sub_ints:
  assumes "\<bar>a - b\<bar> \<le> 2 ^ 53"
  shows "num_sub (Fin (of_int a)) (Fin (of_int b)) = Fin (of_int (a - b))"
proof -
  have "to_double (of_int (a - b)) = Fin (of_int (a - b))" using assms by (rule to_double_int)
  then show ?thesis by (simp add: num_sub_def)
qed

lemma feeOf_ints:
  assumes "map value' utxos = map (\<lambda>n. Fin (of_int n)) us" and "\<forall>n\<in>set us. 0 \<le> n"
    and "sum_list us \<le> 2 ^ 53"
    and "map value' targets = map (\<lambda>n. Fin (of_int n)) ts" and "\<forall>n\<in>set ts. 0 \<le> n"
    and "sum_list ts \<le> 2 ^ 53"
  shows "feeOf utxos targets = Fin (of_int (sum_list us - sum_list ts))"
proof -
  have "0 \<le> sum_list us" "0 \<le> sum_list ts"
    using assms(2,5) by (simp_all add: sum_list_nonneg)
  with assms(3,6) have "\<bar>sum_list us - sum_list ts\<bar> \<le> 2 ^ 53" by simp
  then show ?thesis
    by (simp add: feeOf_def sumValues_ints [OF assms(1,2,3)] sumValues_ints [OF assms(4,5,6)]
        num_sub_ints)
qed

lemma validatedFeeAndVsize_unfold:
  "validatedFeeAndVsize env utxos targets feeRate =
     (if num_lt (realizedFeeRate env utxos targets) feeRate
      then Inl (InsufficientFeeError (realizedFeeRate env utxos targets) feeRate)
      else if \<not> isFinite (realizedFeeRate env utxos targets) \<or>
              num_lt (realizedFeeRate env utxos targets) (Fin 1) \<or>
              num_gt (realizedFeeRate env utxos targets) (MAX_FEE_RATE env)
      then Inl (InvalidFeeRateError (realizedFeeRate env utxos targets))
      else Inr \<lparr>fee' = feeOf utxos targets, vsize' = vsizeOf env utxos targets\<rparr>)"
  by (simp add: validatedFeeAndVsize_def realizedFeeRate_def feeOf_def vsizeOf_def
      validateFeeRate_def Let_def)



lemma double_113_110: "to_double (113 / 110) = Fin (289151566984583 / 281474976710656)"
  using to_double_scaled [of 52 "113 / 110" 4626425071753328] by simp



section \<open>maxFunds: the structure of a call\<close>

lemma allUtxosFee_sweepFee:
  "allUtxosFee env h inputs remainder feeRate = sweepFee env h remainder feeRate inputs"
  by (simp add: allUtxosFee_def sweepFee_def comp_def)

lemma filter_neq_removeAll: "filter (\<lambda>x. x \<noteq> u) xs = removeAll u xs"
  by (induction xs) auto

lemma feeContribution_marginal:
  "feeContribution env h utxos remainder feeRate u =
     marginalFeeContribution env h remainder feeRate utxos u"
  by (simp add: feeContribution_def marginalFeeContribution_def allUtxosFee_sweepFee
      txSizeWithoutUtxo_def sweepFee_def comp_def filter_neq_removeAll)

lemma filterValidUtxos_Inr:
  "filterValidUtxos env h utxos remainder feeRate xs = Inr kept \<longleftrightarrow>
     (\<forall>u\<in>set xs. \<not> num_lt (feeContribution env h utxos remainder feeRate u) (Fin 0)) \<and>
     kept = filter (\<lambda>u. num_gt (value' (objects h u))
                          (feeContribution env h utxos remainder feeRate u)) xs"
proof (induction xs arbitrary: kept)
  case Nil
  show ?case by auto
next
  case (Cons x xs)
  show ?case
  proof (cases "filterValidUtxos env h utxos remainder feeRate xs")
    case (Inl e)
    with Cons.IH have "\<not> (\<forall>u\<in>set xs. \<not> num_lt (feeContribution env h utxos remainder feeRate u) (Fin 0))"
      by auto
    with Inl show ?thesis by (auto simp: Let_def)
  next
    case (Inr ys)
    with Cons.IH [of ys] show ?thesis by (auto simp: Let_def)
  qed
qed

lemma filterValidUtxos_Inl:
  "filterValidUtxos env h utxos remainder feeRate xs = Inl e \<longleftrightarrow>
     e = FeeContributionError \<and>
     (\<exists>u\<in>set xs. num_lt (feeContribution env h utxos remainder feeRate u) (Fin 0))"
proof (induction xs)
  case Nil
  show ?case by simp
next
  case (Cons x xs)
  then show ?case by (auto simp: Let_def split: sum.splits)
qed

lemma maxFunds_fails_validation:
  "\<not> passesValidation env h utxos feeRate dustRelayFeeRate \<Longrightarrow>
     \<exists>e. maxFunds env h utxos remainder feeRate dustRelayFeeRate = Inl e"
  by (auto simp: maxFunds_def passesValidation_def Let_def split: sum.splits)

lemma maxFunds_validated:
  assumes "passesValidation env h utxos feeRate dustRelayFeeRate"
  shows "maxFunds env h utxos remainder feeRate dustRelayFeeRate =
     (case filterValidUtxos env h (arrays h utxos) remainder feeRate (arrays h utxos) of
        Inl e \<Rightarrow> Inl e
      | Inr kept \<Rightarrow>
          (if \<not> isDust env remainder (recipientValue env h remainder feeRate kept)
                  (dustRelayFeeRate_or_default env dustRelayFeeRate)
           then (case validatedFeeAndVsize env (map (objects h) kept)
                        [\<lparr>output' = remainder,
                          value' = recipientValue env h remainder feeRate kept\<rparr>] feeRate of
                   Inl e \<Rightarrow> Inl e
                 | Inr fv \<Rightarrow>
                     Inr (snd (alloc_array h kept),
                          Some \<lparr>fee' = fee' fv, vsize' = vsize' fv,
                                utxos' = (if length (arrays h utxos) = length kept
                                          then utxos else free_ref h),
                                targets' = [\<lparr>output' = remainder,
                                   value' = recipientValue env h remainder feeRate kept\<rparr>]\<rparr>))
           else Inr (snd (alloc_array h kept), None)))"
  using assms
  by (simp add: maxFunds_def passesValidation_def Let_def recipientValue_def
      allUtxosFee_sweepFee alloc_array_def split: sum.splits)

lemma filterValidUtxos_retained:
  "filterValidUtxos env h utxos remainder feeRate utxos = Inr kept \<Longrightarrow>
     kept = retainedUtxos env h remainder feeRate utxos"
  by (simp add: filterValidUtxos_Inr retainedUtxos_def feeContribution_marginal)

lemma maxFunds_Inr:
  assumes "maxFunds env h utxos remainder feeRate dustRelayFeeRate = Inr (h', r)"
  shows "passesValidation env h utxos feeRate dustRelayFeeRate"
    and "filterValidUtxos env h (arrays h utxos) remainder feeRate (arrays h utxos)
           = Inr (retainedUtxos env h remainder feeRate (arrays h utxos))"
    and "h' = snd (alloc_array h (retainedUtxos env h remainder feeRate (arrays h utxos)))"
proof -
  show pv: "passesValidation env h utxos feeRate dustRelayFeeRate"
    using assms maxFunds_fails_validation [of env h utxos feeRate dustRelayFeeRate remainder]
    by auto
  obtain kept where kept:
    "filterValidUtxos env h (arrays h utxos) remainder feeRate (arrays h utxos) = Inr kept"
    using assms maxFunds_validated [OF pv, of remainder]
    by (cases "filterValidUtxos env h (arrays h utxos) remainder feeRate (arrays h utxos)") auto
  then have eq: "kept = retainedUtxos env h remainder feeRate (arrays h utxos)"
    by (rule filterValidUtxos_retained)
  with kept show "filterValidUtxos env h (arrays h utxos) remainder feeRate (arrays h utxos)
           = Inr (retainedUtxos env h remainder feeRate (arrays h utxos))" by simp
  show "h' = snd (alloc_array h (retainedUtxos env h remainder feeRate (arrays h utxos)))"
    using assms maxFunds_validated [OF pv, of remainder] kept eq
    by (auto split: if_splits sum.splits)
qed

lemma maxFunds_Some:
  assumes "maxFunds env h utxos remainder feeRate dustRelayFeeRate = Inr (h', Some sel)"
  defines "kept \<equiv> retainedUtxos env h remainder feeRate (arrays h utxos)"
  defines "target \<equiv> \<lparr>output' = remainder, value' = recipientValue env h remainder feeRate kept\<rparr>"
  shows "\<not> isDust env remainder (recipientValue env h remainder feeRate kept)
           (dustRelayFeeRate_or_default env dustRelayFeeRate)"
    and "validatedFeeAndVsize env (map (objects h) kept) [target] feeRate
           = Inr \<lparr>fee' = fee' sel, vsize' = vsize' sel\<rparr>"
    and "utxos' sel = (if length (arrays h utxos) = length kept then utxos else free_ref h)"
    and "targets' sel = [target]"
proof -
  have pv: "passesValidation env h utxos feeRate dustRelayFeeRate"
    using assms(1) by (rule maxFunds_Inr(1))
  have f: "filterValidUtxos env h (arrays h utxos) remainder feeRate (arrays h utxos) = Inr kept"
    unfolding kept_def using assms(1) by (rule maxFunds_Inr(2))
  note run = assms(1) [unfolded maxFunds_validated [OF pv, of remainder] f, simplified]
  show d: "\<not> isDust env remainder (recipientValue env h remainder feeRate kept)
           (dustRelayFeeRate_or_default env dustRelayFeeRate)"
    using run by (auto split: if_splits)
  obtain fv where fv: "validatedFeeAndVsize env (map (objects h) kept) [target] feeRate = Inr fv"
    using run d unfolding target_def
    by (cases "validatedFeeAndVsize env (map (objects h) kept)
          [\<lparr>output' = remainder, value' = recipientValue env h remainder feeRate kept\<rparr>] feeRate")
       auto
  have sel: "sel = \<lparr>fee' = fee' fv, vsize' = vsize' fv,
                    utxos' = (if length (arrays h utxos) = length kept then utxos else free_ref h),
                    targets' = [target]\<rparr>"
    using run d fv unfolding target_def by auto
  show "validatedFeeAndVsize env (map (objects h) kept) [target] feeRate
           = Inr \<lparr>fee' = fee' sel, vsize' = vsize' sel\<rparr>"
    using fv sel by simp
  show "utxos' sel = (if length (arrays h utxos) = length kept then utxos else free_ref h)"
    using sel by simp
  show "targets' sel = [target]" using sel by simp
qed

lemma filter_same_length: "length (filter P xs) = length xs \<longleftrightarrow> filter P xs = xs"
  by (metis filter_True length_filter_less less_irrefl)

lemma retained_same_length:
  "length xs = length (retainedUtxos env h remainder feeRate xs) \<longleftrightarrow>
     retainedUtxos env h remainder feeRate xs = xs"
proof
  assume "length xs = length (retainedUtxos env h remainder feeRate xs)"
  then have "length (retainedUtxos env h remainder feeRate xs) = length xs" by simp
  then show "retainedUtxos env h remainder feeRate xs = xs"
    unfolding retainedUtxos_def by (simp only: filter_same_length)
next
  assume "retainedUtxos env h remainder feeRate xs = xs"
  then show "length xs = length (retainedUtxos env h remainder feeRate xs)" by simp
qed

lemma alloc_array_lookup:
  "arrays (snd (alloc_array h xs)) a = (if a = free_ref h then xs else arrays h a)"
  "objects (snd (alloc_array h xs)) = objects h"
  "free_ref (snd (alloc_array h xs)) = Suc (free_ref h)"
  by (simp_all add: alloc_array_def)

lemma maxFunds_returned_array:
  assumes "maxFunds env h utxos remainder feeRate dustRelayFeeRate = Inr (h', Some sel)"
  shows "arrays h' (utxos' sel) = retainedUtxos env h remainder feeRate (arrays h utxos)"
proof -
  let ?kept = "retainedUtxos env h remainder feeRate (arrays h utxos)"
  have h': "h' = snd (alloc_array h ?kept)" using assms by (rule maxFunds_Inr(3))
  have u: "utxos' sel = (if length (arrays h utxos) = length ?kept then utxos else free_ref h)"
    using assms by (rule maxFunds_Some(3))
  show ?thesis
  proof (cases "length (arrays h utxos) = length ?kept")
    case True
    then have "?kept = arrays h utxos" by (simp only: retained_same_length)
    with True u h' show ?thesis by (simp add: alloc_array_lookup)
  next
    case False
    with u h' show ?thesis by (simp add: alloc_array_lookup)
  qed
qed

subsection \<open>Two runs on the concrete configuration\<close>

lemmas example_defs = example_env_def example_heap_def validateOutputWithValues_def
  validateFeeRate_def dustRelayFeeRate_or_default_def feeContribution_def allUtxosFee_def
  txSizeWithoutUtxo_def num_gt_def num_sub_def sumValues_def validatedFeeAndVsize_def Let_def

lemma example_run_pruned:
  "maxFunds example_env example_heap 0 7 (Fin 1) None =
     Inr (snd (alloc_array example_heap [0]),
          Some \<lparr>fee' = Fin 110, vsize' = Fin 110, utxos' = 4,
                targets' = [\<lparr>output' = 7, value' = Fin 99890\<rparr>]\<rparr>)"
  by (simp add: maxFunds_def example_defs alloc_array_def)

lemma example_run_same:
  "maxFunds example_env example_heap 1 7 (Fin 1) None =
     Inr (snd (alloc_array example_heap [0]),
          Some \<lparr>fee' = Fin 110, vsize' = Fin 110, utxos' = 1,
                targets' = [\<lparr>output' = 7, value' = Fin 99890\<rparr>]\<rparr>)"
  by (simp add: maxFunds_def example_defs alloc_array_def)


subsection \<open>Doubles of the runs\<close>

text \<open>
  The roundings that occur in the runs below, at the three fee rates
  \<open>1.0112359550561798\<close> (the double of \<open>180 / 178\<close>), \<open>1.0272727272727273\<close>
  (the double of \<open>113 / 110\<close>) and \<open>1.1727272727272728\<close>.
\<close>

lemma double_r3_178: "to_double (405323966463344651 / 2251799813685248) = Fin (180)"
  using to_double_scaled [of 45 "405323966463344651 / 2251799813685248" 6333186975989760] by simp

lemma double_r3_110: "to_double (250481102870606245 / 2251799813685248) = Fin (7827534464706445 / 70368744177664)"
  using to_double_scaled [of 46 "250481102870606245 / 2251799813685248" 7827534464706445] by simp

lemma double_180_178: "to_double (90 / 89) = Fin (4554201870374659 / 4503599627370496)"
  using to_double_scaled [of 52 "90 / 89" 4554201870374659] by simp

lemma double_rD_178: "to_double (25734489461627887 / 140737488355328) = Fin (1608405591351743 / 8796093022208)"
  using to_double_scaled [of 45 "25734489461627887 / 140737488355328" 6433622365406972] by simp

lemma double_rD_110: "to_double (15903336184152065 / 140737488355328) = Fin (113)"
  using to_double_scaled [of 46 "15903336184152065 / 140737488355328" 7951668092076032] by simp

lemma double_rD_42: "to_double (6072182906676243 / 140737488355328) = Fin (6072182906676243 / 140737488355328)"
  using to_double_scaled [of 47 "6072182906676243 / 140737488355328" 6072182906676243] by simp

lemma double_r2_110: "to_double (72620543991349255 / 562949953421312) = Fin (129)"
  using to_double_scaled [of 45 "72620543991349255 / 562949953421312" 4538783999459328] by simp

lemma double_r2_42: "to_double (27727844069424261 / 562949953421312) = Fin (6931961017356065 / 140737488355328)"
  using to_double_scaled [of 47 "27727844069424261 / 562949953421312" 6931961017356065] by simp

lemma double_129_110: "to_double (129 / 110) = Fin (5281494108461763 / 4503599627370496)"
  using to_double_scaled [of 52 "129 / 110" 5281494108461763] by simp

lemmas double_runs = double_r3_178 double_r3_110 double_180_178 double_rD_178 double_rD_110
  double_rD_42 double_r2_110 double_r2_42 double_129_110 double_113_110

subsection \<open>Runs at fee rates that are not integers\<close>

text \<open>
  Two UTXOs of 100000 and 69 at the fee rate \<open>1.0112359550561798\<close>: the product of the
  rate and the size 178 rounds to 180, the contribution of each UTXO is 68, nothing is
  pruned and the caller's array is returned.
\<close>

lemma example_run_keep_69:
  "maxFunds example_env example_heap 2 7 (Fin (4554201870374659 / 4503599627370496)) None =
     Inr (snd (alloc_array example_heap [0, 2]),
          Some \<lparr>fee' = Fin 180, vsize' = Fin 178, utxos' = 2,
                targets' = [\<lparr>output' = 7, value' = Fin 99889\<rparr>]\<rparr>)"
  by (simp add: maxFunds_def example_defs alloc_array_def double_runs)

text \<open>
  Two UTXOs of 100000 and 70 at the fee rate \<open>1.0272727272727273\<close>: the contribution
  of each UTXO is 70, the second UTXO is pruned and a new array is returned.
\<close>

lemma example_run_prune_70:
  "maxFunds example_env example_heap 3 7 (Fin (289151566984583 / 281474976710656)) None =
     Inr (snd (alloc_array example_heap [0]),
          Some \<lparr>fee' = Fin 113, vsize' = Fin 110, utxos' = 4,
                targets' = [\<lparr>output' = 7, value' = Fin 99887\<rparr>]\<rparr>)"
  by (simp add: maxFunds_def example_defs alloc_array_def double_runs)

text \<open>
  One UTXO of 100000 at the fee rate \<open>1.0272727272727273\<close>: the product of the rate
  and the size 110 rounds to 113, which is the fee.
\<close>

lemma example_run_fee_113:
  "maxFunds example_env example_heap 1 7 (Fin (289151566984583 / 281474976710656)) None =
     Inr (snd (alloc_array example_heap [0]),
          Some \<lparr>fee' = Fin 113, vsize' = Fin 110, utxos' = 1,
                targets' = [\<lparr>output' = 7, value' = Fin 99887\<rparr>]\<rparr>)"
  by (simp add: maxFunds_def example_defs alloc_array_def double_runs)

text \<open>
  One UTXO of 100000 at the fee rate \<open>1.1727272727272728\<close>: the product of the rate
  and the size 110 rounds to 129, and 129 divided by 110 rounds to
  \<open>1.1727272727272726\<close>, less than the rate.
\<close>

lemma example_run_insufficient:
  "maxFunds example_env example_heap 1 7 (Fin (1320373527115441 / 1125899906842624)) None =
     Inl (InsufficientFeeError (Fin (5281494108461763 / 4503599627370496)) (Fin (1320373527115441 / 1125899906842624)))"
  by (simp add: maxFunds_def example_defs alloc_array_def double_runs)


section \<open>maxFunds: the retained UTXOs\<close>




section \<open>maxFunds: the identity of the returned array\<close>

text \<open>
  Claim C8. When \<open>maxFunds\<close> returns a selection and the caller's array is allocated in
  the store, the filter has returned a subsequence of the caller's array, and: if it
  pruned no UTXO, the selection carries the reference of the caller's array itself; if it
  pruned a UTXO, the selection carries another reference, that of the array created by the
  filter, which holds the UTXOs that the filter kept. The caller's array and the objects
  are unchanged.
\<close>

theorem maxFunds_same_reference:
  assumes "maxFunds env h utxos remainder feeRate dustRelayFeeRate = Inr (h', Some sel)"
    and "utxos < free_ref h"
  shows "\<exists>kept.
           filterValidUtxos env h (arrays h utxos) remainder feeRate (arrays h utxos) = Inr kept \<and>
           subseq kept (arrays h utxos) \<and>
           (kept = arrays h utxos \<longrightarrow> utxos' sel = utxos) \<and>
           (kept \<noteq> arrays h utxos \<longrightarrow>
              utxos' sel \<noteq> utxos \<and> utxos' sel = free_ref h \<and> arrays h' (utxos' sel) = kept) \<and>
           arrays h' utxos = arrays h utxos \<and> objects h' = objects h"
proof -
  let ?kept = "retainedUtxos env h remainder feeRate (arrays h utxos)"
  have f: "filterValidUtxos env h (arrays h utxos) remainder feeRate (arrays h utxos) = Inr ?kept"
    using assms(1) by (rule maxFunds_Inr(2))
  have sub: "subseq ?kept (arrays h utxos)" by (simp add: retainedUtxos_def)
  have h': "h' = snd (alloc_array h ?kept)" using assms(1) by (rule maxFunds_Inr(3))
  have u: "utxos' sel = (if length (arrays h utxos) = length ?kept then utxos else free_ref h)"
    using assms(1) by (rule maxFunds_Some(3))
  have len: "length (arrays h utxos) = length ?kept \<longleftrightarrow> ?kept = arrays h utxos"
    by (rule retained_same_length)
  have same: "?kept = arrays h utxos \<longrightarrow> utxos' sel = utxos" using u len by simp
  have fresh: "?kept \<noteq> arrays h utxos \<longrightarrow>
      utxos' sel \<noteq> utxos \<and> utxos' sel = free_ref h \<and> arrays h' (utxos' sel) = ?kept"
    using u len h' assms(2) by (simp add: alloc_array_lookup)
  have unchanged: "arrays h' utxos = arrays h utxos \<and> objects h' = objects h"
    using h' assms(2) by (simp add: alloc_array_lookup)
  from f sub same fresh unchanged show ?thesis by blast
qed

theorem maxFunds_same_reference_witness:
  "filterValidUtxos example_env example_heap [0, 2] 7 (Fin (4554201870374659 / 4503599627370496)) [0, 2] = Inr [0, 2] \<and>
   utxos' \<lparr>fee' = Fin 180, vsize' = Fin 178, utxos' = 2,
            targets' = [\<lparr>output' = (7::nat), value' = Fin 99889\<rparr>]\<rparr> = (2::nat) \<and>
   filterValidUtxos example_env example_heap [0, 3] 7 (Fin (289151566984583 / 281474976710656)) [0, 3] = Inr [0] \<and>
   arrays (snd (alloc_array example_heap [0])) 4 = [0] \<and>
   arrays (snd (alloc_array example_heap [0])) 3 = [0, 3]"
proof -
  let ?keep = "snd (alloc_array example_heap [0, 2])"
  let ?prune = "snd (alloc_array example_heap [0])"
  let ?same = "\<lparr>fee' = Fin 180, vsize' = Fin 178, utxos' = 2,
                targets' = [\<lparr>output' = (7::nat), value' = Fin 99889\<rparr>]\<rparr>"
  let ?fresh = "\<lparr>fee' = Fin 113, vsize' = Fin 110, utxos' = 4,
                targets' = [\<lparr>output' = (7::nat), value' = Fin 99887\<rparr>]\<rparr>"
  have a2: "arrays example_heap 2 = [0, 2]" and a3: "arrays example_heap 3 = [0, 3]"
    and f: "free_ref example_heap = 4"
    by (simp_all add: example_heap_def)
  have s: "utxos' ?same = 2" and n: "utxos' ?fresh = 4" by simp_all
  have "2 < free_ref example_heap" by (simp add: f)
  from maxFunds_same_reference [OF example_run_keep_69 this, unfolded a2 s]
  obtain kept where kept:
    "filterValidUtxos example_env example_heap [0, 2] 7 (Fin (4554201870374659 / 4503599627370496)) [0, 2] = Inr kept"
    "kept \<noteq> [0, 2] \<longrightarrow> (2::nat) \<noteq> 2 \<and> 2 = free_ref example_heap \<and> arrays ?keep 2 = kept"
    by blast
  from kept(2) have "kept = [0, 2]" by blast
  with kept(1) have w1:
    "filterValidUtxos example_env example_heap [0, 2] 7 (Fin (4554201870374659 / 4503599627370496)) [0, 2] = Inr [0, 2]"
    by simp
  have "3 < free_ref example_heap" by (simp add: f)
  from maxFunds_same_reference [OF example_run_prune_70 this, unfolded a3 n]
  obtain pruned where pruned:
    "filterValidUtxos example_env example_heap [0, 3] 7 (Fin (289151566984583 / 281474976710656)) [0, 3] = Inr pruned"
    "pruned = [0, 3] \<longrightarrow> (4::nat) = 3"
    "pruned \<noteq> [0, 3] \<longrightarrow> (4::nat) \<noteq> 3 \<and> 4 = free_ref example_heap \<and> arrays ?prune 4 = pruned"
    "arrays ?prune 3 = [0, 3]"
    by blast
  from pruned(2) have "pruned \<noteq> [0, 3]" by auto
  with pruned(3) have p4: "arrays ?prune 4 = pruned" by blast
  have "arrays ?prune 4 = [0]" by (simp add: alloc_array_def example_heap_def)
  with p4 have "pruned = [0]" by simp
  with pruned(1) p4 have w2:
    "filterValidUtxos example_env example_heap [0, 3] 7 (Fin (289151566984583 / 281474976710656)) [0, 3] = Inr [0]"
    and w3: "arrays ?prune 4 = [0]" by simp_all
  from w1 s w2 w3 pruned(4) show ?thesis by (intro conjI)
qed


section \<open>maxFunds: the guard on the fee contribution\<close>

lemma validateFeeRate_Inr:
  "validateFeeRate env x = Inr () \<Longrightarrow> \<exists>r. x = Fin r \<and> 1 \<le> r \<and> \<not> num_gt x (MAX_FEE_RATE env)"
  by (cases x) (auto simp: validateFeeRate_def split: if_splits)

lemma num_ceil_mono: "num_le a b \<Longrightarrow> num_le (num_ceil a) (num_ceil b)"
  by (cases a; cases b) (simp_all add: ceiling_mono)

lemma num_le_not_lt: "num_le a b \<Longrightarrow> \<not> num_lt b a"
  by (cases a; cases b) simp_all

lemma num_le_PosInf: "num_le x PosInf \<longleftrightarrow> x \<noteq> NaN"
  by (cases x) simp_all

lemma num_le_NegInf: "num_le NegInf x \<longleftrightarrow> x \<noteq> NaN"
  by (cases x) simp_all

lemma num_mul_mono:
  assumes "1 \<le> r" and "num_le a b"
  shows "num_le (num_mul (Fin r) a) (num_mul (Fin r) b)"
proof (cases a; cases b)
  fix x y assume ab: "a = Fin x" "b = Fin y"
  with assms have "r * x \<le> r * y" by (simp add: mult_left_mono)
  then have "num_le (to_double (r * x)) (to_double (r * y))" by (rule to_double_mono)
  then show ?thesis using ab by simp
qed (use assms in \<open>auto simp: signed_inf_def num_le_PosInf num_le_NegInf\<close>)

lemma fee_mono:
  "1 \<le> r \<Longrightarrow> num_le a b \<Longrightarrow>
     num_le (num_ceil (num_mul (Fin r) a)) (num_ceil (num_mul (Fin r) b))"
  by (rule num_ceil_mono) (rule num_mul_mono)

lemma difference_not_negative:
  assumes "num_le x y"
  shows "\<not> num_lt (num_sub y x) (Fin 0)"
proof (cases x; cases y)
  fix a b assume xy: "x = Fin a" "y = Fin b"
  with assms have "0 \<le> b - a" by simp
  then have "num_le (to_double 0) (to_double (b - a))" by (rule to_double_mono)
  then have "num_le (Fin 0) (to_double (b - a))" by simp
  then have "\<not> num_lt (to_double (b - a)) (Fin 0)" by (rule num_le_not_lt)
  then show ?thesis using xy by (simp add: num_sub_def)
qed (use assms in \<open>auto simp: num_sub_def\<close>)

lemma txSizeWithoutUtxo_le:
  assumes "vsizeMonotone env"
  shows "num_le (txSizeWithoutUtxo env h utxos remainder u)
           (vsize env (map (\<lambda>utxo. output' (objects h utxo)) utxos) [remainder])"
proof -
  have "subseq (filter (\<lambda>utxo. utxo \<noteq> u) utxos) utxos" by simp
  then have "subseq (map (\<lambda>utxo. output' (objects h utxo)) (filter (\<lambda>utxo. utxo \<noteq> u) utxos))
      (map (\<lambda>utxo. output' (objects h utxo)) utxos)"
    by (rule subseq_map)
  with assms show ?thesis unfolding vsizeMonotone_def txSizeWithoutUtxo_def by blast
qed

lemma fee_without_le:
  assumes "vsizeMonotone env" and "validateFeeRate env feeRate = Inr ()"
  shows "num_le (num_ceil (num_mul feeRate (txSizeWithoutUtxo env h utxos remainder u)))
           (allUtxosFee env h utxos remainder feeRate)"
proof -
  from assms(2) obtain r where r: "feeRate = Fin r" "1 \<le> r"
    using validateFeeRate_Inr by blast
  show ?thesis
    unfolding allUtxosFee_def r(1)
    using r(2) txSizeWithoutUtxo_le [OF assms(1)] by (rule fee_mono)
qed

lemma filter_completes:
  assumes "vsizeMonotone env" and "validateFeeRate env feeRate = Inr ()"
  shows "filterValidUtxos env h utxos remainder feeRate utxos
           = Inr (retainedUtxos env h remainder feeRate utxos)"
proof -
  have "\<not> num_lt (feeContribution env h utxos remainder feeRate u) (Fin 0)" for u
    unfolding feeContribution_def
    using fee_without_le [OF assms] by (rule difference_not_negative)
  then show ?thesis
    by (simp add: filterValidUtxos_Inr retainedUtxos_def feeContribution_marginal)
qed

lemma validatedFeeAndVsize_errors:
  "validatedFeeAndVsize env utxos targets feeRate \<noteq> Inl FeeContributionError"
  by (simp add: validatedFeeAndVsize_unfold)

lemma example_env_monotone: "vsizeMonotone example_env"
  unfolding vsizeMonotone_def
proof (intro allI impI)
  fix ins ins' outs :: "nat list"
  assume "subseq ins' ins"
  then have "length ins' \<le> length ins" by (rule list_emb_length)
  then show "num_le (vsize example_env ins' outs) (vsize example_env ins outs)"
    by (simp add: example_env_def)
qed

lemma example_passes: "passesValidation example_env example_heap 0 (Fin 1) None"
  by (simp add: passesValidation_def example_defs)

text \<open>
  Claim C10. With a size estimator that is monotone in the input set, for every call
  that passes validation and every UTXO of the array, the fee of the full set is at least
  the fee of the set without that UTXO, the fee contribution is not negative, and
  \<open>maxFunds\<close> never fails with the error of the guard \<open>feeContribution < 0\<close>.
\<close>

theorem feeContribution_guard_unreachable:
  assumes "passesValidation env h utxos feeRate dustRelayFeeRate" and "vsizeMonotone env"
  shows "(\<forall>u\<in>set (arrays h utxos).
            num_le (num_ceil (num_mul feeRate (txSizeWithoutUtxo env h (arrays h utxos) remainder u)))
              (allUtxosFee env h (arrays h utxos) remainder feeRate) \<and>
            \<not> num_lt (feeContribution env h (arrays h utxos) remainder feeRate u) (Fin 0)) \<and>
         maxFunds env h utxos remainder feeRate dustRelayFeeRate \<noteq> Inl FeeContributionError"
proof -
  have rate: "validateFeeRate env feeRate = Inr ()"
    using assms(1) by (simp add: passesValidation_def)
  have le: "num_le (num_ceil (num_mul feeRate (txSizeWithoutUtxo env h (arrays h utxos) remainder u)))
      (allUtxosFee env h (arrays h utxos) remainder feeRate)" for u
    using assms(2) rate by (rule fee_without_le)
  have nonneg: "\<not> num_lt (feeContribution env h (arrays h utxos) remainder feeRate u) (Fin 0)" for u
    unfolding feeContribution_def using le by (rule difference_not_negative)
  have f: "filterValidUtxos env h (arrays h utxos) remainder feeRate (arrays h utxos)
      = Inr (retainedUtxos env h remainder feeRate (arrays h utxos))"
    using assms(2) rate by (rule filter_completes)
  have "maxFunds env h utxos remainder feeRate dustRelayFeeRate \<noteq> Inl FeeContributionError"
    unfolding maxFunds_validated [OF assms(1)] f
    using validatedFeeAndVsize_errors by (auto split: sum.splits)
  with le nonneg show ?thesis by blast
qed

theorem feeContribution_guard_unreachable_witness:
  "passesValidation example_env example_heap 0 (Fin 1) None \<and> vsizeMonotone example_env \<and>
   \<not> num_lt (feeContribution example_env example_heap [0, 1] 7 (Fin 1) 1) (Fin 0) \<and>
   maxFunds example_env example_heap 0 7 (Fin 1) None \<noteq> Inl FeeContributionError"
proof -
  have a: "arrays example_heap 0 = [0, 1]" by (simp add: example_heap_def)
  note t = feeContribution_guard_unreachable [OF example_passes example_env_monotone, of 7,
      unfolded a]
  from t have "\<not> num_lt (feeContribution example_env example_heap [0, 1] 7 (Fin 1) 1) (Fin 0)"
    by simp
  moreover from t have "maxFunds example_env example_heap 0 7 (Fin 1) None \<noteq> Inl FeeContributionError"
    by (rule conjunct2)
  ultimately show ?thesis using example_passes example_env_monotone by (intro conjI)
qed


section \<open>maxFunds: the validation of the relay fee rate\<close>

text \<open>
  Claim C9, as amended. For every call in which \<open>validateFeeRate\<close> rejects the relay fee
  rate (the argument, or the default when it is omitted): when the UTXOs pass
  \<open>validateOutputWithValues\<close>, \<open>maxFunds\<close> fails with the invalid-fee-rate error, of the
  relay fee rate when the fee rate itself is valid and of the fee rate otherwise; when the
  UTXOs do not pass \<open>validateOutputWithValues\<close>, \<open>maxFunds\<close> fails with the error of
  that validator, which runs first. In both cases it fails before any selection work: the
  outcome is the same with any other size estimator and dust classifier.
\<close>

theorem maxFunds_validates_dustRelayFeeRate:
  assumes "validateFeeRate env (dustRelayFeeRate_or_default env dustRelayFeeRate) \<noteq> Inr ()"
  shows "(validateOutputWithValues (map (objects h) (arrays h utxos)) = Inr () \<longrightarrow>
            maxFunds env h utxos remainder feeRate dustRelayFeeRate =
              Inl (InvalidFeeRateError
                     (if validateFeeRate env feeRate = Inr ()
                      then dustRelayFeeRate_or_default env dustRelayFeeRate else feeRate))) \<and>
         (\<forall>e. validateOutputWithValues (map (objects h) (arrays h utxos)) = Inl e \<longrightarrow>
            maxFunds env h utxos remainder feeRate dustRelayFeeRate = Inl e) \<and>
         (\<forall>estimator classifier.
            maxFunds (env\<lparr>vsize := estimator, isDust := classifier\<rparr>) h utxos remainder
              feeRate dustRelayFeeRate
            = maxFunds env h utxos remainder feeRate dustRelayFeeRate)"
proof -
  let ?rate = "dustRelayFeeRate_or_default env dustRelayFeeRate"
  let ?checked = "validateOutputWithValues (map (objects h) (arrays h utxos))"
  have dust: "validateFeeRate env ?rate = Inl (InvalidFeeRateError ?rate)"
    using assms validateFeeRate_cases [of env ?rate] by blast
  have fee: "validateFeeRate env feeRate \<noteq> Inr () \<Longrightarrow>
      validateFeeRate env feeRate = Inl (InvalidFeeRateError feeRate)"
    using validateFeeRate_cases [of env feeRate] by blast
  have result: "maxFunds env h utxos remainder feeRate dustRelayFeeRate =
      Inl (InvalidFeeRateError (if validateFeeRate env feeRate = Inr () then ?rate else feeRate))"
    if ok: "?checked = Inr ()"
  proof (cases "validateFeeRate env feeRate = Inr ()")
    case True
    with ok dust show ?thesis by (simp add: maxFunds_def Let_def)
  next
    case False
    with ok fee show ?thesis by (simp add: maxFunds_def Let_def)
  qed
  have first: "maxFunds env h utxos remainder feeRate dustRelayFeeRate = Inl e"
    if "?checked = Inl e" for e
    using that by (simp add: maxFunds_def Let_def)
  have same: "maxFunds (env\<lparr>vsize := estimator, isDust := classifier\<rparr>) h utxos remainder
      feeRate dustRelayFeeRate = maxFunds env h utxos remainder feeRate dustRelayFeeRate"
    for estimator classifier
  proof -
    let ?env' = "env\<lparr>vsize := estimator, isDust := classifier\<rparr>"
    have v: "validateFeeRate ?env' x = validateFeeRate env x" for x
      by (simp add: validateFeeRate_def)
    have d: "dustRelayFeeRate_or_default ?env' dustRelayFeeRate = ?rate"
      by (cases dustRelayFeeRate) (simp_all add: dustRelayFeeRate_or_default_def)
    show ?thesis
    proof (cases ?checked)
      case (Inl e)
      then show ?thesis by (simp add: maxFunds_def Let_def)
    next
      case (Inr u)
      show ?thesis
      proof (cases "validateFeeRate env feeRate = Inr ()")
        case True
        with Inr dust show ?thesis by (simp add: maxFunds_def Let_def v d)
      next
        case False
        with Inr fee show ?thesis by (simp add: maxFunds_def Let_def v d)
      qed
    qed
  qed
  from result first same show ?thesis by blast
qed

theorem maxFunds_validates_dustRelayFeeRate_witness:
  "validateFeeRate example_env (dustRelayFeeRate_or_default example_env (Some (Fin (1 / 2))))
     \<noteq> Inr () \<and>
   validateOutputWithValues (map (objects example_heap) (arrays example_heap 0)) = Inr () \<and>
   maxFunds example_env example_heap 0 7 (Fin 1) (Some (Fin (1 / 2)))
     = Inl (InvalidFeeRateError (Fin (1 / 2))) \<and>
   validateOutputWithValues
     (map (objects (example_heap\<lparr>objects := (\<lambda>r. \<lparr>output' = 0, value' = Fin (3 / 2)\<rparr>)\<rparr>))
        (arrays (example_heap\<lparr>objects := (\<lambda>r. \<lparr>output' = 0, value' = Fin (3 / 2)\<rparr>)\<rparr>) 0))
     = Inl (InvalidValueError (Fin (3 / 2))) \<and>
   maxFunds example_env (example_heap\<lparr>objects := (\<lambda>r. \<lparr>output' = 0, value' = Fin (3 / 2)\<rparr>)\<rparr>)
     0 7 (Fin 1) (Some (Fin (1 / 2))) = Inl (InvalidValueError (Fin (3 / 2)))"
proof -
  let ?bad = "example_heap\<lparr>objects := (\<lambda>r. \<lparr>output' = 0, value' = Fin (3 / 2)\<rparr>)\<rparr>"
  have a: "validateOutputWithValues (map (objects example_heap) (arrays example_heap 0)) = Inr ()"
    by (simp add: example_defs)
  have b: "validateFeeRate example_env
      (dustRelayFeeRate_or_default example_env (Some (Fin (1 / 2)))) \<noteq> Inr ()"
    by (simp add: example_defs)
  have c: "validateFeeRate example_env (Fin 1) = Inr ()" by (simp add: example_defs)
  have d: "validateOutputWithValues (map (objects ?bad) (arrays ?bad 0))
      = Inl (InvalidValueError (Fin (3 / 2)))"
    by (simp add: example_defs)
  have "maxFunds example_env example_heap 0 7 (Fin 1) (Some (Fin (1 / 2))) =
      Inl (InvalidFeeRateError
             (if validateFeeRate example_env (Fin 1) = Inr ()
              then dustRelayFeeRate_or_default example_env (Some (Fin (1 / 2))) else Fin 1))"
    by (rule maxFunds_validates_dustRelayFeeRate [OF b, THEN conjunct1, rule_format, OF a])
  then have e: "maxFunds example_env example_heap 0 7 (Fin 1) (Some (Fin (1 / 2)))
      = Inl (InvalidFeeRateError (Fin (1 / 2)))"
    unfolding c by (simp add: dustRelayFeeRate_or_default_def)
  have f: "maxFunds example_env ?bad 0 7 (Fin 1) (Some (Fin (1 / 2)))
      = Inl (InvalidValueError (Fin (3 / 2)))"
    by (rule maxFunds_validates_dustRelayFeeRate
          [OF b, THEN conjunct2, THEN conjunct1, rule_format, OF d])
  from b a e d f show ?thesis by (intro conjI)
qed

text \<open>
  The claim does not hold of every call. \<open>validateOutputWithValues\<close> runs first: on an
  empty array, with a valid fee rate and the relay fee rate 0.5, the call fails with the
  empty-group error.
\<close>

theorem maxFunds_dustRelayFeeRate_counterexample:
  "validateFeeRate example_env (Fin 1) = Inr () \<and>
   validateFeeRate example_env (Fin (1 / 2)) = Inl (InvalidFeeRateError (Fin (1 / 2))) \<and>
   maxFunds example_env (example_heap\<lparr>arrays := (\<lambda>a. [])\<rparr>) 0 7 (Fin 1) (Some (Fin (1 / 2)))
     = Inl EmptyGroupError"
  by (simp add: maxFunds_def example_defs)


section \<open>maxFunds: the fee of a selection\<close>

subsection \<open>A run with a sum above \<open>2^53\<close>\<close>

text \<open>
  The 92 UTXOs of the large store at the fee rate 1. The size is 6298 and the fee of the
  full set is 6298; the contribution of each UTXO is 68, so nothing is pruned. The sum of
  the first 90 values is exact; adding the next value gives \<open>91 * 10^14\<close>, a double;
  adding 1001 gives an odd integer above \<open>2^53\<close>, which rounds to the even integer below
  it. The value of the target is that sum minus 6298, and the fee that
  \<open>validatedFeeAndVsize\<close> computes is again 6298.
\<close>

lemma double_91e14: "to_double 9100000000000000 = Fin 9100000000000000"
  using to_double_scaled_up [of 1 9100000000000000 4550000000000000] by simp

lemma double_91e14_1001: "to_double 9100000000001001 = Fin 9100000000001000"
  using to_double_scaled_up [of 1 9100000000001001 4550000000000500] by simp

lemma double_91e14_target: "to_double 9099999999994702 = Fin 9099999999994702"
  using to_double_scaled_up [of 1 9099999999994702 4549999999997351] by simp

lemma length_filter_neq:
  assumes "distinct xs" and "u \<in> set xs"
  shows "length (filter (\<lambda>x. x \<noteq> u) xs) = length xs - 1"
proof -
  have "filter (\<lambda>x. x \<noteq> u) xs = remove1 u xs"
    using assms(1) by (simp add: filter_neq_removeAll distinct_remove1_removeAll)
  then show ?thesis using assms(2) by (simp add: length_remove1)
qed

lemma large_value:
  "value' (objects large_heap r) = Fin (if r = 91 then 1001 else 100000000000000)"
  by (simp add: large_heap_def)

lemma large_array: "arrays large_heap a = [0..<92]"
  by (simp add: large_heap_def)

lemma large_split: "[0..<92] = [0..<90] @ [90, 91]"
proof -
  have "[0..<92] = [0..<90 + 2]" by simp
  also have "\<dots> = [0..<90] @ [90..<90 + 2]" by (rule upt_add_eq_append) simp
  also have "[90..<90 + 2] = [90, 91::nat]" by (simp add: upt_rec)
  finally show ?thesis .
qed

lemma large_sum: "sumValues (map (objects large_heap) [0..<92]) = Fin 9100000000001000"
proof -
  let ?f = "\<lambda>a x. num_add a (value' (x :: nat OutputWithValue))"
  have "map value' (map (objects large_heap) [0..<90])
      = map (\<lambda>r. Fin (of_int 100000000000000)) [0..<90]"
    by (simp add: large_value)
  also have "\<dots> = map (\<lambda>n. Fin (of_int n)) (replicate 90 100000000000000)"
    by (simp add: map_replicate_const)
  finally have "foldl ?f (Fin (of_int 0)) (map (objects large_heap) [0..<90])
      = Fin (of_int (0 + sum_list (replicate 90 100000000000000)))"
    by (rule foldl_num_add_ints) (simp_all add: sum_list_replicate)
  then have first: "foldl ?f (Fin 0) (map (objects large_heap) [0..<90]) = Fin 9000000000000000"
    by (simp add: sum_list_replicate)
  show ?thesis
    unfolding sumValues_def large_split map_append foldl_append first
    by (simp add: large_value double_91e14 double_91e14_1001)
qed

lemma large_passes: "passesValidation example_env large_heap 0 (Fin 1) None"
proof -
  have "\<forall>x\<in>set (map (objects large_heap) [0..<92]). supportedValue (value' x)"
    by (auto simp: large_value supportedValue_def intro: exI [of _ 1001]
        exI [of _ 100000000000000])
  then have "validateValues (map (objects large_heap) [0..<92]) = Inr ()"
    by (simp only: validateValues_ok)
  then show ?thesis
    by (simp add: passesValidation_def large_array validateOutputWithValues_def
        validateFeeRate_def dustRelayFeeRate_or_default_def example_env_def num_gt_def)
qed

lemma large_fee: "sweepFee example_env large_heap 7 (Fin 1) [0..<92] = Fin 6298"
  by (simp add: sweepFee_def example_env_def)

lemma large_contribution:
  assumes "u \<in> set [0..<92]"
  shows "feeContribution example_env large_heap [0..<92] 7 (Fin 1) u = Fin 68"
proof -
  have "length (filter (\<lambda>x. x \<noteq> u) [0..<92]) = length [0..<92] - 1"
    using _ assms by (rule length_filter_neq) simp
  then have "length (filter (\<lambda>x. x \<noteq> u) [0..<92]) = 91" by simp
  then have "txSizeWithoutUtxo example_env large_heap [0..<92] 7 u = Fin 6230"
    by (simp add: txSizeWithoutUtxo_def example_env_def)
  then show ?thesis
    by (simp add: feeContribution_def allUtxosFee_sweepFee large_fee num_sub_def)
qed

lemma large_filter:
  "filterValidUtxos example_env large_heap [0..<92] 7 (Fin 1) [0..<92] = Inr [0..<92]"
proof -
  have "filter (\<lambda>u. num_gt (value' (objects large_heap u))
      (feeContribution example_env large_heap [0..<92] 7 (Fin 1) u)) [0..<92] = [0..<92]"
    by (rule filter_True) (simp add: large_contribution large_value num_gt_def)
  then show ?thesis
    by (simp add: filterValidUtxos_Inr large_contribution)
qed

lemma large_recipient:
  "recipientValue example_env large_heap 7 (Fin 1) [0..<92] = Fin 9099999999994702"
  by (simp add: recipientValue_def large_sum large_fee num_sub_def double_91e14_target)

lemma large_validated:
  "validatedFeeAndVsize example_env (map (objects large_heap) [0..<92])
     [\<lparr>output' = 7, value' = Fin 9099999999994702\<rparr>] (Fin 1)
   = Inr \<lparr>fee' = Fin 6298, vsize' = Fin 6298\<rparr>"
proof -
  have f: "feeOf (map (objects large_heap) [0..<92])
      [\<lparr>output' = (7::nat), value' = Fin 9099999999994702\<rparr>] = Fin 6298"
    by (simp add: feeOf_def large_sum num_sub_def sumValues_def [of "[_]"] double_91e14_target)
  have v: "vsizeOf example_env (map (objects large_heap) [0..<92])
      [\<lparr>output' = (7::nat), value' = Fin 9099999999994702\<rparr>] = Fin 6298"
    by (simp add: vsizeOf_def example_env_def)
  have m: "MAX_FEE_RATE example_env = Fin 10000" by (simp add: example_env_def)
  show ?thesis
    by (simp add: validatedFeeAndVsize_unfold realizedFeeRate_def f v m num_gt_def)
qed

lemma large_run:
  "maxFunds example_env large_heap 0 7 (Fin 1) None =
     Inr (snd (alloc_array large_heap [0..<92]),
          Some \<lparr>fee' = Fin 6298, vsize' = Fin 6298, utxos' = 0,
                targets' = [\<lparr>output' = 7, value' = Fin 9099999999994702\<rparr>]\<rparr>)"
proof -
  have d: "\<not> isDust example_env 7 (Fin 9099999999994702)
      (dustRelayFeeRate_or_default example_env None)"
    by (simp add: example_env_def dustRelayFeeRate_or_default_def)
  show ?thesis
    unfolding maxFunds_validated [OF large_passes] large_array large_filter
    using d by (simp add: large_recipient large_validated)
qed

subsection \<open>The values of a selection\<close>

lemma supported_values_ints:
  "(\<forall>x\<in>set xs. supportedValue (value' x)) \<Longrightarrow>
     \<exists>ns. map value' xs = map (\<lambda>n. Fin (of_int n)) ns \<and> (\<forall>n\<in>set ns. 0 < n \<and> n \<le> 10 ^ 14)"
proof (induction xs)
  case Nil
  show ?case by simp
next
  case (Cons x xs)
  then obtain ns where ns: "map value' xs = map (\<lambda>n. Fin (of_int n)) ns"
      "\<forall>n\<in>set ns. 0 < n \<and> n \<le> 10 ^ 14"
    by auto
  from Cons.prems obtain n :: int where n: "value' x = Fin (of_int n)" "0 < n" "n \<le> 10 ^ 14"
    by (auto simp: supportedValue_def)
  with ns have "map value' (x # xs) = map (\<lambda>n. Fin (of_int n)) (n # ns) \<and>
      (\<forall>m\<in>set (n # ns). 0 < m \<and> m \<le> 10 ^ 14)"
    by simp
  then show ?case by blast
qed

lemma validated_values_supported:
  assumes "validateOutputWithValues xs = Inr ()"
  shows "\<forall>x\<in>set xs. supportedValue (value' x)"
proof -
  from assms have "validateValues xs = Inr ()"
    by (simp add: validateOutputWithValues_def split: if_splits)
  then show ?thesis by (simp only: validateValues_ok)
qed

lemma retained_values_ints:
  assumes "passesValidation env h utxos feeRate dustRelayFeeRate"
  shows "\<exists>ns. map value' (map (objects h) (retainedUtxos env h remainder feeRate (arrays h utxos)))
           = map (\<lambda>n. Fin (of_int n)) ns \<and> (\<forall>n\<in>set ns. 0 < n \<and> n \<le> 10 ^ 14)"
proof -
  let ?kept = "retainedUtxos env h remainder feeRate (arrays h utxos)"
  have "validateOutputWithValues (map (objects h) (arrays h utxos)) = Inr ()"
    using assms by (simp add: passesValidation_def)
  then have all: "\<forall>x\<in>set (map (objects h) (arrays h utxos)). supportedValue (value' x)"
    by (rule validated_values_supported)
  have "set ?kept \<subseteq> set (arrays h utxos)" by (auto simp: retainedUtxos_def)
  with all have "\<forall>x\<in>set (map (objects h) ?kept). supportedValue (value' x)" by auto
  then show ?thesis by (rule supported_values_ints)
qed

lemma num_ceil_Fin: "num_ceil a = Fin x \<Longrightarrow> \<exists>f::int. x = of_int f"
  by (cases a) auto

lemma to_double_int_range:
  assumes "to_double (of_int d) = Fin q" and "0 \<le> q" and "q \<le> 2 ^ 53"
  shows "\<exists>t::int. q = of_int t \<and> 0 \<le> t \<and> t \<le> 2 ^ 53"
proof -
  have top: "to_double (of_int (2 ^ 53)) = Fin (of_int (2 ^ 53))"
    by (rule to_double_int) simp
  have bottom: "to_double (of_int (- (2 ^ 53))) = Fin (of_int (- (2 ^ 53)))"
    by (rule to_double_int) simp
  consider "\<bar>d\<bar> \<le> 2 ^ 53" | "2 ^ 53 < d" | "d < - (2 ^ 53)" by linarith
  then show ?thesis
  proof cases
    case 1
    then have "to_double (of_int d) = Fin (of_int d)" by (rule to_double_int)
    with assms(1) have q: "q = of_int d" by simp
    with assms(2) have "0 \<le> d" by simp
    with 1 q show ?thesis by auto
  next
    case 2
    then have "(of_int (2 ^ 53) :: rat) \<le> of_int d" by (simp only: of_int_le_iff)
    then have "num_le (to_double (of_int (2 ^ 53))) (to_double (of_int d))"
      by (rule to_double_mono)
    then have "(of_int (2 ^ 53) :: rat) \<le> q" unfolding top assms(1) by simp
    with assms(3) have "q = of_int (2 ^ 53)" by simp
    then show ?thesis by (intro exI [of _ "2 ^ 53"]) simp
  next
    case 3
    then have "(of_int d :: rat) \<le> of_int (- (2 ^ 53))" by (simp only: of_int_le_iff)
    then have "num_le (to_double (of_int d)) (to_double (of_int (- (2 ^ 53))))"
      by (rule to_double_mono)
    then have "q \<le> of_int (- (2 ^ 53))" unfolding bottom assms(1) by simp
    with assms(2) show ?thesis by simp
  qed
qed

lemma recipient_value_int:
  assumes "num_sub (Fin (of_int s)) (num_ceil c) = Fin q" and "0 \<le> q" and "q \<le> 2 ^ 53"
  shows "\<exists>t::int. q = of_int t \<and> 0 \<le> t \<and> t \<le> 2 ^ 53"
proof (cases "num_ceil c")
  case (Fin x)
  then obtain f :: int where "x = of_int f" using num_ceil_Fin by blast
  with Fin assms(1) have "to_double (of_int (s - f)) = Fin q" by (simp add: num_sub_def)
  then show ?thesis using assms(2,3) by (rule to_double_int_range)
qed (use assms(1) in \<open>simp_all add: num_sub_def\<close>)

lemma validatedFeeAndVsize_Inr:
  assumes "validatedFeeAndVsize env us ts feeRate = Inr fv"
  shows "fee' fv = feeOf us ts" and "vsize' fv = vsizeOf env us ts"
    and "\<not> num_lt (realizedFeeRate env us ts) feeRate"
    and "isFinite (realizedFeeRate env us ts)"
  using assms by (auto simp: validatedFeeAndVsize_unfold split: if_splits)

text \<open>
  Claim C1, as amended. For every selection that \<open>maxFunds\<close> returns: the fee is the sum
  of the values of the returned UTXOs minus the sum of the values of the targets, and the
  virtual size is the estimate for them, in the arithmetic of doubles; the fee divided by
  the virtual size, in that arithmetic, is finite and not less than the requested fee
  rate; the values of the returned UTXOs are integers in \<open>(0, 10^14]\<close>; and when their
  sum is at most \<open>2^53\<close> and the value of the one target lies between 0 and \<open>2^53\<close>,
  the value of the target is an integer and the fee is exactly the integer difference of
  the sum and the value of the target.
\<close>

theorem maxFunds_fee_invariants:
  assumes "maxFunds env h utxos remainder feeRate dustRelayFeeRate = Inr (h', Some sel)"
  shows "fee' sel = feeOf (map (objects h') (arrays h' (utxos' sel))) (targets' sel) \<and>
         vsize' sel = vsizeOf env (map (objects h') (arrays h' (utxos' sel))) (targets' sel) \<and>
         isFinite (num_div (fee' sel) (vsize' sel)) \<and>
         \<not> num_lt (num_div (fee' sel) (vsize' sel)) feeRate \<and>
         (\<exists>ns. map value' (map (objects h') (arrays h' (utxos' sel)))
                  = map (\<lambda>n. Fin (of_int n)) ns \<and>
               (\<forall>n\<in>set ns. 0 < n \<and> n \<le> 10 ^ 14) \<and>
               (sum_list ns \<le> 2 ^ 53 \<longrightarrow>
                  (\<forall>q. map value' (targets' sel) = [Fin q] \<longrightarrow> 0 \<le> q \<longrightarrow> q \<le> 2 ^ 53 \<longrightarrow>
                     (\<exists>t. q = of_int t \<and> fee' sel = Fin (of_int (sum_list ns - t))))))"
proof -
  let ?kept = "retainedUtxos env h remainder feeRate (arrays h utxos)"
  let ?us = "map (objects h) ?kept"
  let ?target = "\<lparr>output' = remainder, value' = recipientValue env h remainder feeRate ?kept\<rparr>"
  have pv: "passesValidation env h utxos feeRate dustRelayFeeRate"
    using assms by (rule maxFunds_Inr(1))
  have arr: "arrays h' (utxos' sel) = ?kept" using assms by (rule maxFunds_returned_array)
  have obj: "objects h' = objects h"
    using maxFunds_Inr(3) [OF assms] by (simp add: alloc_array_lookup)
  have tg: "targets' sel = [?target]" using assms by (rule maxFunds_Some(4))
  have v: "validatedFeeAndVsize env ?us [?target] feeRate
      = Inr \<lparr>fee' = fee' sel, vsize' = vsize' sel\<rparr>"
    using assms by (rule maxFunds_Some(2))
  have fe: "fee' sel = feeOf ?us [?target]" and vs: "vsize' sel = vsizeOf env ?us [?target]"
    using validatedFeeAndVsize_Inr(1,2) [OF v] by simp_all
  have nlt: "\<not> num_lt (realizedFeeRate env ?us [?target]) feeRate"
    and fin: "isFinite (realizedFeeRate env ?us [?target])"
    using v by (rule validatedFeeAndVsize_Inr(3), rule validatedFeeAndVsize_Inr(4))
  have quot: "num_div (fee' sel) (vsize' sel) = realizedFeeRate env ?us [?target]"
    by (simp add: realizedFeeRate_def fe vs)
  obtain ns where ns: "map value' ?us = map (\<lambda>n. Fin (of_int n)) ns"
      and range: "\<forall>n\<in>set ns. 0 < n \<and> n \<le> 10 ^ 14"
    using retained_values_ints [OF pv] by blast
  have nonneg: "\<forall>n\<in>set ns. 0 \<le> n" using range by auto
  have exact: "\<exists>t. q = of_int t \<and> fee' sel = Fin (of_int (sum_list ns - t))"
    if small: "sum_list ns \<le> 2 ^ 53" and q: "map value' (targets' sel) = [Fin q]"
      and q0: "0 \<le> q" and q1: "q \<le> 2 ^ 53" for q
  proof -
    have s: "sumValues ?us = Fin (of_int (sum_list ns))"
      using ns nonneg small by (rule sumValues_ints)
    from q have "recipientValue env h remainder feeRate ?kept = Fin q" by (simp add: tg)
    then have "num_sub (Fin (of_int (sum_list ns)))
        (num_ceil (num_mul feeRate (vsize env (map (output' \<circ> objects h) ?kept) [remainder])))
        = Fin q"
      by (simp add: recipientValue_def s sweepFee_def)
    then obtain t :: int where t: "q = of_int t" "0 \<le> t" "t \<le> 2 ^ 53"
      using q0 q1 recipient_value_int by blast
    have "map value' [?target] = map (\<lambda>n. Fin (of_int n)) [t]"
      using q t(1) by (simp add: tg)
    with ns nonneg small have "feeOf ?us [?target] = Fin (of_int (sum_list ns - sum_list [t]))"
      by (rule feeOf_ints) (use t in simp_all)
    then have "fee' sel = Fin (of_int (sum_list ns - t))" by (simp add: fe)
    with t(1) show ?thesis by blast
  qed
  have e1: "map value' (map (objects h') (arrays h' (utxos' sel))) = map (\<lambda>n. Fin (of_int n)) ns"
    using ns by (simp only: arr obj)
  have ex: "\<exists>ns. map value' (map (objects h') (arrays h' (utxos' sel)))
                  = map (\<lambda>n. Fin (of_int n)) ns \<and>
               (\<forall>n\<in>set ns. 0 < n \<and> n \<le> 10 ^ 14) \<and>
               (sum_list ns \<le> 2 ^ 53 \<longrightarrow>
                  (\<forall>q. map value' (targets' sel) = [Fin q] \<longrightarrow> 0 \<le> q \<longrightarrow> q \<le> 2 ^ 53 \<longrightarrow>
                     (\<exists>t. q = of_int t \<and> fee' sel = Fin (of_int (sum_list ns - t)))))"
    apply (rule exI [of _ ns])
    using e1 range exact by (intro conjI impI allI)
  have a: "fee' sel = feeOf (map (objects h') (arrays h' (utxos' sel))) (targets' sel)"
    by (simp add: arr obj tg fe)
  have b: "vsize' sel = vsizeOf env (map (objects h') (arrays h' (utxos' sel))) (targets' sel)"
    by (simp add: arr obj tg vs)
  have c: "isFinite (num_div (fee' sel) (vsize' sel))"
    unfolding quot by (rule fin)
  have d: "\<not> num_lt (num_div (fee' sel) (vsize' sel)) feeRate"
    unfolding quot by (rule nlt)
  from a b c d ex show ?thesis by (intro conjI)
qed

theorem maxFunds_fee_invariants_witness:
  "feeOf (map (objects (snd (alloc_array example_heap [0])))
            (arrays (snd (alloc_array example_heap [0])) 4))
         [\<lparr>output' = (7::nat), value' = Fin 99887\<rparr>] = Fin 113 \<and>
   isFinite (num_div (Fin 113) (Fin 110)) \<and>
   \<not> num_lt (num_div (Fin 113) (Fin 110)) (Fin (289151566984583 / 281474976710656)) \<and>
   Fin 113 = Fin (of_int (sum_list [100000] - 99887))"
proof -
  let ?h' = "snd (alloc_array example_heap [0])"
  let ?sel = "\<lparr>fee' = Fin 113, vsize' = Fin 110, utxos' = 4,
               targets' = [\<lparr>output' = (7::nat), value' = Fin 99887\<rparr>]\<rparr>"
  note t = maxFunds_fee_invariants [OF example_run_prune_70]
  have "Fin 113 = feeOf (map (objects ?h') (arrays ?h' 4))
      [\<lparr>output' = (7::nat), value' = Fin 99887\<rparr>]"
    using t [THEN conjunct1]
    unfolding FeeAndVsize.select_convs Selection.select_convs .
  then have a: "feeOf (map (objects ?h') (arrays ?h' 4))
      [\<lparr>output' = (7::nat), value' = Fin 99887\<rparr>] = Fin 113" by (rule sym)
  have b: "isFinite (num_div (Fin 113) (Fin 110))"
    using t [THEN conjunct2, THEN conjunct2, THEN conjunct1]
    unfolding FeeAndVsize.select_convs Selection.select_convs .
  have c: "\<not> num_lt (num_div (Fin 113) (Fin 110)) (Fin (289151566984583 / 281474976710656))"
    using t [THEN conjunct2, THEN conjunct2, THEN conjunct2, THEN conjunct1]
    unfolding FeeAndVsize.select_convs Selection.select_convs .
  from t [THEN conjunct2, THEN conjunct2, THEN conjunct2, THEN conjunct2]
  obtain ns where ns: "map value' (map (objects ?h') (arrays ?h' (utxos' ?sel)))
        = map (\<lambda>n. Fin (of_int n)) ns"
    and exact: "sum_list ns \<le> 2 ^ 53 \<longrightarrow>
        (\<forall>q. map value' (targets' ?sel) = [Fin q] \<longrightarrow> 0 \<le> q \<longrightarrow> q \<le> 2 ^ 53 \<longrightarrow>
           (\<exists>t. q = of_int t \<and> fee' ?sel = Fin (of_int (sum_list ns - t))))"
    by blast
  have "map value' (map (objects ?h') (arrays ?h' (utxos' ?sel))) = [Fin 100000]"
    by (simp add: alloc_array_def example_heap_def)
  with ns have "map (\<lambda>n. Fin (of_int n)) ns = [Fin (of_int 100000)]" by simp
  then have n: "ns = [100000]" by (auto simp: map_eq_Cons_conv)
  have small: "sum_list ns \<le> 2 ^ 53" by (simp add: n)
  have q: "map value' (targets' ?sel) = [Fin 99887]" by simp
  from exact [rule_format, OF small q]
  obtain t :: int where "99887 = (of_int t :: rat)"
    and f: "fee' ?sel = Fin (of_int (sum_list ns - t))"
    by auto
  then have "(of_int t :: rat) = of_int 99887" by simp
  then have "t = 99887" by (simp only: of_int_eq_iff)
  with f n have d: "Fin 113 = Fin (of_int (sum_list [100000] - 99887))" by simp
  from a b c d show ?thesis by (intro conjI)
qed

text \<open>
  The claim does not hold as stated: the arithmetic is that of doubles. With the 92 UTXOs
  of the large store at the fee rate 1, \<open>maxFunds\<close> returns the caller's array with the
  fee 6298 and a target of value 9099999999994702, while the sum of the values of the
  UTXOs, \<open>91 * 10^14 + 1001\<close>, minus the value of the target is 6299. With one UTXO of
  100000 at the fee rate \<open>1.0272727272727273\<close>, it returns the fee 113 and the virtual
  size 110, and the rational \<open>113 / 110\<close> is less than the fee rate.
\<close>

theorem maxFunds_fee_counterexample:
  "maxFunds example_env large_heap 0 7 (Fin 1) None =
     Inr (snd (alloc_array large_heap [0..<92]),
          Some \<lparr>fee' = Fin 6298, vsize' = Fin 6298, utxos' = 0,
                targets' = [\<lparr>output' = 7, value' = Fin 9099999999994702\<rparr>]\<rparr>) \<and>
   map value' (map (objects (snd (alloc_array large_heap [0..<92])))
                 (arrays (snd (alloc_array large_heap [0..<92])) 0))
     = map Fin (replicate 91 100000000000000 @ [1001]) \<and>
   sum_list (replicate 91 100000000000000 @ [1001]) - 9099999999994702 = (6299::rat) \<and>
   maxFunds example_env example_heap 1 7 (Fin (289151566984583 / 281474976710656)) None =
     Inr (snd (alloc_array example_heap [0]),
          Some \<lparr>fee' = Fin 113, vsize' = Fin 110, utxos' = 1,
                targets' = [\<lparr>output' = 7, value' = Fin 99887\<rparr>]\<rparr>) \<and>
   (113::rat) / 110 < 289151566984583 / 281474976710656"
proof -
  let ?h' = "snd (alloc_array large_heap [0..<92])"
  have last: "[0..<92] = [0..<91] @ [91::nat]"
  proof -
    have "[0..<92] = [0..<Suc 91]" by simp
    then show ?thesis by (simp only: upt_Suc_append [of 0 91, simplified])
  qed
  have head: "map (\<lambda>r. value' (objects large_heap r)) [0..<91]
      = map (\<lambda>r. Fin 100000000000000) [0..<91]"
    by (rule map_cong) (simp_all add: large_value)
  have a: "arrays ?h' 0 = [0..<91] @ [91]"
    by (simp add: alloc_array_lookup large_heap_def last)
  have "map value' (map (objects ?h') (arrays ?h' 0))
      = map (\<lambda>r. value' (objects large_heap r)) [0..<91] @ [value' (objects large_heap 91)]"
    unfolding a by (simp add: alloc_array_lookup comp_def)
  also have "\<dots> = map Fin (replicate 91 100000000000000 @ [1001])"
    unfolding head by (simp add: large_value map_replicate_const)
  finally have listed: "map value' (map (objects ?h') (arrays ?h' 0))
      = map Fin (replicate 91 100000000000000 @ [1001])" .
  have difference:
    "sum_list (replicate 91 100000000000000 @ [1001]) - 9099999999994702 = (6299::rat)"
    by (simp add: sum_list_replicate)
  have less: "(113::rat) / 110 < 289151566984583 / 281474976710656" by simp
  from large_run listed difference example_run_fee_113 less show ?thesis by (intro conjI)
qed


section \<open>maxFunds: dust and the selection\<close>

text \<open>
  Claim C4 says that a call that passes validation returns \<open>undefined\<close> when the value
  of the recipient is dust and a selection with the one target otherwise. The code fails
  on the following call, which passes validation and whose recipient is not dust: one
  UTXO of value 100000 at the fee rate \<open>1.1727272727272728\<close>, with a transaction of
  size 110. The fee is \<open>Math.ceil(1.1727272727272728 * 110) = 129\<close> and the value of
  the recipient is 99871; \<open>validatedFeeAndVsize\<close> then computes the realized rate
  \<open>129 / 110\<close>, which rounds to \<open>1.1727272727272726\<close>, less than the fee rate, and
  \<open>maxFunds\<close> fails with the insufficient-fee error.
\<close>

theorem maxFunds_rejects_its_own_fee:
  "passesValidation example_env example_heap 1 (Fin (1320373527115441 / 1125899906842624)) None \<and>
   retainedUtxos example_env example_heap 7 (Fin (1320373527115441 / 1125899906842624)) (arrays example_heap 1) = [0] \<and>
   sweepFee example_env example_heap 7 (Fin (1320373527115441 / 1125899906842624)) [0] = Fin 129 \<and>
   recipientValue example_env example_heap 7 (Fin (1320373527115441 / 1125899906842624)) [0] = Fin 99871 \<and>
   \<not> dustyTarget example_env None \<lparr>output' = 7, value' = Fin 99871\<rparr> \<and>
   realizedFeeRate example_env (map (objects example_heap) [0])
     [\<lparr>output' = 7, value' = Fin 99871\<rparr>] = Fin (5281494108461763 / 4503599627370496) \<and>
   (5281494108461763 / 4503599627370496 :: rat) < 1320373527115441 / 1125899906842624 \<and>
   maxFunds example_env example_heap 1 7 (Fin (1320373527115441 / 1125899906842624)) None =
     Inl (InsufficientFeeError (Fin (5281494108461763 / 4503599627370496)) (Fin (1320373527115441 / 1125899906842624)))"
proof -
  have a: "passesValidation example_env example_heap 1 (Fin (1320373527115441 / 1125899906842624)) None"
    by (simp add: passesValidation_def example_defs)
  have b: "retainedUtxos example_env example_heap 7 (Fin (1320373527115441 / 1125899906842624)) (arrays example_heap 1) = [0]"
    by (simp add: retainedUtxos_def marginalFeeContribution_def sweepFee_def example_defs
        double_runs)
  have c: "sweepFee example_env example_heap 7 (Fin (1320373527115441 / 1125899906842624)) [0] = Fin 129"
    by (simp add: sweepFee_def example_defs double_runs)
  have d: "recipientValue example_env example_heap 7 (Fin (1320373527115441 / 1125899906842624)) [0] = Fin 99871"
    unfolding recipientValue_def c by (simp add: example_heap_def sumValues_def num_sub_def)
  have e: "\<not> dustyTarget example_env None \<lparr>output' = 7, value' = Fin 99871\<rparr>"
    by (simp add: dustyTarget_def example_defs)
  have f: "realizedFeeRate example_env (map (objects example_heap) [0])
      [\<lparr>output' = 7, value' = Fin 99871\<rparr>] = Fin (5281494108461763 / 4503599627370496)"
    by (simp add: realizedFeeRate_def feeOf_def vsizeOf_def example_defs double_runs)
  have g: "(5281494108461763 / 4503599627370496 :: rat) < 1320373527115441 / 1125899906842624" by simp
  from a b c d e f g example_run_insufficient show ?thesis by (intro conjI)
qed


end
